theory Spec2Isabelle
  imports Main
begin

section \<open>Strings\<close>

text \<open>
  A JavaScript string is read as a list of code units; the model's \<open>char\<close> covers the code
  units U+0000 to U+00FF. \<open>isWhiteSpace\<close> is the class that both the regular expression
  \<open>\s\<close> and \<open>String.prototype.trim\<close> use, cut down to that range: tab, line feed,
  vertical tab, form feed, carriage return, space and no-break space.
\<close>

definition isWhiteSpace :: "char \<Rightarrow> bool" where
  "isWhiteSpace c =
     (c = CHR 0x09 \<or> c = CHR 0x0A \<or> c = CHR 0x0B \<or> c = CHR 0x0C \<or> c = CHR 0x0D \<or>
      c = CHR 0x20 \<or> c = CHR 0xA0)"

text \<open>\<open>s.trim()\<close>: whitespace removed at both ends.\<close>

definition trim :: "string \<Rightarrow> string" where
  "trim s = rev (dropWhile isWhiteSpace (rev (dropWhile isWhiteSpace s)))"

text \<open>
  \<open>s.replace(/\s+/g, ' ')\<close>: scanning from the left, every maximal run of whitespace is
  replaced by one space.
\<close>

function replace_ws_runs :: "string \<Rightarrow> string" where
  "replace_ws_runs [] = []"
| "replace_ws_runs (c # cs) =
     (if isWhiteSpace c then CHR '' '' # replace_ws_runs (dropWhile isWhiteSpace cs)
      else c # replace_ws_runs cs)"
  by pat_completeness auto
termination
  by (relation "measure length") (auto simp: length_dropWhile_le less_Suc_eq_le)

definition normalizeWhitespace :: "string \<Rightarrow> string" where
  "normalizeWhitespace s = trim (replace_ws_runs s)"

text \<open>\<open>s.includes(t)\<close>: \<open>t\<close> occurs in \<open>s\<close> as a contiguous substring.\<close>

fun startsWith :: "string \<Rightarrow> string \<Rightarrow> bool" where
  "startsWith s [] = True"
| "startsWith [] (t # ts) = False"
| "startsWith (c # cs) (t # ts) = (c = t \<and> startsWith cs ts)"

fun string_includes :: "string \<Rightarrow> string \<Rightarrow> bool" where
  "string_includes [] t = (t = [])"
| "string_includes (c # cs) t = (startsWith (c # cs) t \<or> string_includes cs t)"

text \<open>
  \<open>s.split(sep)\<close> for a separator of one code unit: the pieces between the occurrences of
  the separator, empty pieces included; the result always has at least one piece.
\<close>

function split :: "string \<Rightarrow> char \<Rightarrow> string list" where
  "split s sep =
     (case dropWhile (\<lambda>c. c \<noteq> sep) s of
        [] \<Rightarrow> [s]
      | _ # rest \<Rightarrow> takeWhile (\<lambda>c. c \<noteq> sep) s # split rest sep)"
  by pat_completeness auto
termination
proof (relation "measure (\<lambda>(s, sep). length s)")
  show "wf (measure (\<lambda>(s, sep). length s))" by simp
next
  fix s :: string and sep :: char and x21 :: char and x22 :: string
  assume h: "dropWhile (\<lambda>c. c \<noteq> sep) s = x21 # x22"
  have "length (x21 # x22) \<le> length s"
    using length_dropWhile_le [of "\<lambda>c. c \<noteq> sep" s] h by simp
  then show "((x22, sep), (s, sep)) \<in> measure (\<lambda>(s, sep). length s)" by simp
qed

text \<open>\<open>pieces.join(sep)\<close>.\<close>

fun join :: "string list \<Rightarrow> string \<Rightarrow> string" where
  "join [] sep = []"
| "join [p] sep = p"
| "join (p # q # ps) sep = p @ sep @ join (q # ps) sep"

text \<open>\<open>s.toLowerCase()\<close> on the code units of the model: A to Z, and the capital letters of
  Latin-1 (U+00C0 to U+00DE without the multiplication sign U+00D7).\<close>

definition toLowerCase_char :: "char \<Rightarrow> char" where
  "toLowerCase_char c =
     (let n = (of_char c :: nat)
      in if (65 \<le> n \<and> n \<le> 90) \<or> (192 \<le> n \<and> n \<le> 222 \<and> n \<noteq> 215)
         then char_of (n + 32) else c)"

definition toLowerCase :: "string \<Rightarrow> string" where
  "toLowerCase s = map toLowerCase_char s"

text \<open>The ASCII upper case that an HTML document gives to the tag name of an element.\<close>

definition ascii_uppercase :: "string \<Rightarrow> string" where
  "ascii_uppercase s =
     map (\<lambda>c. let n = (of_char c :: nat) in if 97 \<le> n \<and> n \<le> 122 then char_of (n - 32) else c) s"

section \<open>Errors\<close>

text \<open>
  Every \<open>throw new Error(msg)\<close> of the source is the value \<open>Error msg\<close>. A selector that the
  host's selector engine rejects makes \<open>querySelectorAll\<close> and \<open>matches\<close> throw a
  \<open>SyntaxError\<close> DOMException, which carries the selector here.
\<close>

datatype error = Error string | SyntaxError string

section \<open>The node tree\<close>

text \<open>
  The interface an element implements, as far as the source tests it with \<open>instanceof\<close>:
  the three controls that carry a \<open>value\<close>, any other HTML element, and an element that is
  not an \<open>HTMLElement\<close> (an SVG element, say).
\<close>

datatype iface =
  HTMLInputElement | HTMLTextAreaElement | HTMLSelectElement | HTMLElement | PlainElement

text \<open>The owner document, as far as the matchers read it.\<close>

record document =
  URL :: string
  title :: string

text \<open>
  What the source reads of one element. \<open>ident\<close> is the identity of the object: a
  \<open>Set<Element>\<close> compares by identity, and two elements of one tree carry different idents.
  \<open>val\<close> is the \<open>value\<close> property of a control. \<open>directSetter\<close> and \<open>prototypeSetter\<close>
  are the setters that \<open>Object.getOwnPropertyDescriptor(_, 'value')?.set\<close> finds on the element
  itself and on its prototype (a setter function is known by a number; \<open>None\<close> is
  \<open>undefined\<close>).
\<close>

record props =
  ident :: nat
  tagName :: string
  iface :: iface
  attributes :: "(string \<times> string) list"
  val :: string
  directSetter :: "nat option"
  prototypeSetter :: "nat option"
  ownerDocument :: document

text \<open>
  A node of the tree: an element with its child nodes in order, a text node with its data,
  or a comment. The functions below that the source types on \<open>Element\<close> are only ever applied
  to \<open>Element\<close> nodes.
\<close>

datatype node = Element props "node list" | Text string | Comment string

fun props_of :: "node \<Rightarrow> props option" where
  "props_of (Element p cs) = Some p"
| "props_of _ = None"

fun childNodes :: "node \<Rightarrow> node list" where
  "childNodes (Element p cs) = cs"
| "childNodes _ = []"

text \<open>The elements of a subtree in document order, the top one first.\<close>

fun subtree :: "node \<Rightarrow> node list" where
  "subtree (Element p cs) = Element p cs # concat (map subtree cs)"
| "subtree (Text s) = []"
| "subtree (Comment s) = []"

text \<open>\<open>e.querySelectorAll('*')\<close>: every element below \<open>e\<close>, in document order, \<open>e\<close> not
  among them.\<close>

definition descendants :: "node \<Rightarrow> node list" where
  "descendants e = concat (map subtree (childNodes e))"

text \<open>
  The selector engine is the host's. \<open>css selector\<close> is \<open>None\<close> for a selector the engine
  rejects, and otherwise the test \<open>m scope d\<close>: does \<open>d\<close> match the selector, with \<open>scope\<close>
  the element the query was started on.
\<close>

type_synonym selector_engine = "string \<Rightarrow> (node \<Rightarrow> node \<Rightarrow> bool) option"

definition querySelectorAll :: "selector_engine \<Rightarrow> node \<Rightarrow> string \<Rightarrow> error + node list" where
  "querySelectorAll css e selector =
     (case css selector of
        None \<Rightarrow> Inl (SyntaxError selector)
      | Some m \<Rightarrow> Inr (filter (m e) (descendants e)))"

definition matches :: "selector_engine \<Rightarrow> node \<Rightarrow> string \<Rightarrow> error + bool" where
  "matches css e selector =
     (case css selector of
        None \<Rightarrow> Inl (SyntaxError selector)
      | Some m \<Rightarrow> Inr (m e e))"

text \<open>\<open>e.getAttribute(name)\<close>; \<open>None\<close> is \<open>null\<close>.\<close>

fun getAttribute :: "node \<Rightarrow> string \<Rightarrow> string option" where
  "getAttribute (Element p cs) name = map_of (attributes p) name"
| "getAttribute _ name = None"

section \<open>Sets of elements\<close>

text \<open>
  A \<open>Set<Element>\<close> is the list of its members in insertion order, which is the order a
  \<open>for ... of\<close> loop and \<open>Array.from\<close> read it in. \<open>Set_add\<close> is \<open>results.add(d)\<close>.
\<close>

definition Set_add :: "node list \<Rightarrow> node \<Rightarrow> node list" where
  "Set_add results d = (if d \<in> set results then results else results @ [d])"

section \<open>Own text\<close>

text \<open>
  A regular expression object: its source text, its flags, the matcher of its pattern, and
  its property \<open>lastIndex\<close> as it is when the call that reads the object starts.
  \<open>matcher re S i\<close> is the attempt to match the pattern in \<open>S\<close> at the index \<open>i\<close>: \<open>None\<close> when
  the attempt fails, and the index where the match ends otherwise.
\<close>

record RegExp =
  source :: string
  flags :: string
  matcher :: "string \<Rightarrow> nat \<Rightarrow> nat option"
  lastIndex :: nat

text \<open>The search of \<open>RegExp.prototype.exec\<close>: the attempts start at the index \<open>i\<close> and go
  on, one index further each time, until one succeeds or the index is past the end of the
  string; a sticky search makes the first attempt only.\<close>

function search_from ::
  "(string \<Rightarrow> nat \<Rightarrow> nat option) \<Rightarrow> bool \<Rightarrow> string \<Rightarrow> nat \<Rightarrow> nat option" where
  "search_from m sticky S i =
     (if i > length S then None
      else (case m S i of
              Some e \<Rightarrow> Some e
            | None \<Rightarrow> if sticky then None else search_from m sticky S (i + 1)))"
  by pat_completeness auto
termination
  by (relation "measure (\<lambda>(m, sticky, S, i). length S + 1 - i)") auto

text \<open>
  \<open>re.test(S)\<close>, with the object as the call leaves it. Without the flags \<open>g\<close> and \<open>y\<close> the
  search starts at index 0 and \<open>lastIndex\<close> is not written. With one of them the search
  starts at \<open>lastIndex\<close>, a match sets \<open>lastIndex\<close> to its end, and a failure sets it to 0.
\<close>

definition test :: "RegExp \<Rightarrow> string \<Rightarrow> bool \<times> RegExp" where
  "test re S =
     (let global = (CHR ''g'' \<in> set (flags re));
          sticky = (CHR ''y'' \<in> set (flags re));
          start = (if \<not> global \<and> \<not> sticky then 0 else lastIndex re)
      in case search_from (matcher re) sticky S start of
           None \<Rightarrow> (False, if global \<or> sticky then re\<lparr>lastIndex := 0\<rparr> else re)
         | Some e \<Rightarrow> (True, if global \<or> sticky then re\<lparr>lastIndex := e\<rparr> else re))"

definition RegExp_toString :: "RegExp \<Rightarrow> string" where
  "RegExp_toString re = ''/'' @ source re @ ''/'' @ flags re"

text \<open>A value of type \<open>string | RegExp\<close>, and what a template literal prints for it.\<close>

datatype string_or_RegExp = IsString string | IsRegExp RegExp

fun template :: "string_or_RegExp \<Rightarrow> string" where
  "template (IsString s) = s"
| "template (IsRegExp re) = RegExp_toString re"

text \<open>The loop of \<open>getNormalizedText\<close> over \<open>node.childNodes\<close>: the data of the text nodes
  among them, appended in order.\<close>

fun text_of_children :: "node list \<Rightarrow> string" where
  "text_of_children [] = []"
| "text_of_children (Text s # cs) = s @ text_of_children cs"
| "text_of_children (c # cs) = text_of_children cs"

fun getNormalizedText :: "node \<Rightarrow> string" where
  "getNormalizedText (Element p cs) =
     (if tagName p = ''INPUT'' \<or> tagName p = ''TEXTAREA'' then val p
      else normalizeWhitespace (text_of_children cs))"
| "getNormalizedText _ = []"

section \<open>Match strategies\<close>

text \<open>
  \<open>matchDescendants\<close> calls \<open>isMatch\<close> once for each descendant of each member, in order. A
  callback that tests a regular expression changes that object, so the callback takes the
  state it works on and returns it as the call leaves it, and \<open>matchDescendants\<close> returns
  the state after the last call next to the set it has built.
\<close>

definition matchDescendants ::
  "node list \<Rightarrow> (node \<Rightarrow> 's \<Rightarrow> bool \<times> 's) \<Rightarrow> 's \<Rightarrow> node list \<times> 's" where
  "matchDescendants prev isMatch s0 =
     foldl (\<lambda>acc e.
              foldl (\<lambda>(results, s) d.
                       case isMatch d s of
                         (b, s') \<Rightarrow> (if b then Set_add results d else results, s'))
                acc (descendants e))
       ([], s0) prev"

text \<open>The selector is handed to the engine once for each member of \<open>prev\<close>, so a selector
  the engine rejects throws only when \<open>prev\<close> has a member.\<close>

fun matchQuerySelector_loop ::
  "selector_engine \<Rightarrow> string \<Rightarrow> node list \<Rightarrow> node list \<Rightarrow> error + node list" where
  "matchQuerySelector_loop css selector results [] = Inr results"
| "matchQuerySelector_loop css selector results (e # es) =
     (case querySelectorAll css e selector of
        Inl err \<Rightarrow> Inl err
      | Inr ds \<Rightarrow> matchQuerySelector_loop css selector (foldl Set_add results ds) es)"

definition matchQuerySelector :: "selector_engine \<Rightarrow> node list \<Rightarrow> string \<Rightarrow> error + node list" where
  "matchQuerySelector css prev selector = matchQuerySelector_loop css selector [] prev"

definition matchText :: "node list \<Rightarrow> string \<Rightarrow> node list" where
  "matchText prev txt =
     fst (matchDescendants prev (\<lambda>e s. (string_includes (getNormalizedText e) txt, s)) ())"

text \<open>The found elements, and the regular expression as the calls of \<open>test\<close> leave it.\<close>

definition matchRegExp :: "node list \<Rightarrow> RegExp \<Rightarrow> node list \<times> RegExp" where
  "matchRegExp prev re = matchDescendants prev (\<lambda>e r. test r (getNormalizedText e)) re"

definition hasRole :: "node \<Rightarrow> string \<Rightarrow> bool" where
  "hasRole e role =
     (let attr = (case getAttribute e ''role'' of None \<Rightarrow> [] | Some a \<Rightarrow> a);
          roles = map trim (split attr CHR '' '')
      in role \<in> set roles)"

definition matchRole :: "node list \<Rightarrow> string \<Rightarrow> node list" where
  "matchRole prev role = fst (matchDescendants prev (\<lambda>e s. (hasRole e role, s)) ())"

text \<open>\<open>isFound\<close> for one member, and \<open>filterText\<close>: each returns, next to its result, the
  argument \<open>s\<close> as the call leaves it (a string as it was, a regular expression with the
  \<open>lastIndex\<close> that \<open>test\<close> has written).\<close>

fun isFound :: "string_or_RegExp \<Rightarrow> node \<Rightarrow> bool \<times> string_or_RegExp" where
  "isFound (IsString s) e = (string_includes (getNormalizedText e) s, IsString s)"
| "isFound (IsRegExp re) e =
     (case test re (getNormalizedText e) of (b, re') \<Rightarrow> (b, IsRegExp re'))"

definition filterText :: "node list \<Rightarrow> string_or_RegExp \<Rightarrow> node list \<times> string_or_RegExp" where
  "filterText prev s =
     foldl (\<lambda>(results, s) e.
              case isFound s e of
                (b, s') \<Rightarrow> (if b then Set_add results e else results, s'))
       ([], s) prev"

text \<open>
  The step of \<open>first()\<close>. \<open>prev.values().next().value\<close> is \<open>undefined\<close> (here \<open>None\<close>) when
  the iterator is exhausted at once.
\<close>

definition next_value :: "node list \<Rightarrow> node option" where
  "next_value prev = (case prev of [] \<Rightarrow> None | e # _ \<Rightarrow> Some e)"

definition first_match :: "node list \<Rightarrow> error + node list" where
  "first_match prev =
     (if length prev = 0 then Inr []
      else (case next_value prev of
              None \<Rightarrow> Inl (Error ''No elements found'')
            | Some elem \<Rightarrow> Inr [elem]))"

section \<open>ScreenLocator\<close>

text \<open>
  The runner of type \<open>DomScreenAct\<close> that a locator carries: either a function the caller
  supplied (\<open>React.act\<close> or similar, known by a number), or the static method
  \<open>DomScreen.globalAct\<close>, which refuses to run before \<open>DomScreen.initTest\<close> has stored a
  runner in the module's variable \<open>globalAct\<close>.
\<close>

datatype DomScreenAct = Act nat | DomScreen_globalAct

type_synonym Matcher = "node list \<Rightarrow> error + node list"

record LocatorMatcher =
  description :: string
  match :: Matcher

text \<open>\<open>root\<close> is the subtree that the locator's reference points to, as it is when the
  locator is read.\<close>

record ScreenLocator =
  act :: DomScreenAct
  root :: node
  matchers :: "LocatorMatcher list"

definition ScreenLocator_of :: "DomScreenAct \<Rightarrow> node \<Rightarrow> ScreenLocator" where
  "ScreenLocator_of a element = \<lparr>act = a, root = element, matchers = []\<rparr>"

definition chainLocator :: "ScreenLocator \<Rightarrow> string \<Rightarrow> Matcher \<Rightarrow> ScreenLocator" where
  "chainLocator this d m =
     \<lparr>act = act this, root = root this,
      matchers = matchers this @ [\<lparr>description = d, match = m\<rparr>]\<rparr>"

definition locate :: "selector_engine \<Rightarrow> ScreenLocator \<Rightarrow> string \<Rightarrow> ScreenLocator" where
  "locate css this selector =
     (if selector = '''' then this
      else chainLocator this (''locate('' @ selector @ '')'')
             (\<lambda>prev. matchQuerySelector css prev selector))"

text \<open>
  A step that holds a regular expression reads it in the state the value carries, the state
  of the object when the step starts, and hands on the elements it finds. The state the step
  leaves the object in is the second component of \<open>filterText\<close> and \<open>matchRegExp\<close>.
\<close>

definition locator_filterText :: "ScreenLocator \<Rightarrow> string_or_RegExp \<Rightarrow> ScreenLocator" where
  "locator_filterText this s =
     chainLocator this (''filterText('' @ template s @ '')'')
       (\<lambda>prev. Inr (fst (filterText prev s)))"

definition locateRole :: "ScreenLocator \<Rightarrow> string \<Rightarrow> ScreenLocator" where
  "locateRole this role =
     chainLocator this (''locateRole('' @ role @ '')'') (\<lambda>prev. Inr (matchRole prev role))"

fun locateText :: "ScreenLocator \<Rightarrow> string_or_RegExp \<Rightarrow> ScreenLocator" where
  "locateText this (IsRegExp s) =
     chainLocator this (''locateText(regexp: '' @ RegExp_toString s @ '')'')
       (\<lambda>prev. Inr (fst (matchRegExp prev s)))"
| "locateText this (IsString s) =
     chainLocator this (''locateText('' @ s @ '')'') (\<lambda>prev. Inr (matchText prev s))"

definition first :: "ScreenLocator \<Rightarrow> ScreenLocator" where
  "first this = chainLocator this ''first()'' first_match"

definition describe :: "ScreenLocator \<Rightarrow> string list" where
  "describe this = map description (matchers this)"

definition formatDescription :: "ScreenLocator \<Rightarrow> string" where
  "formatDescription this = join (describe this) '' -> ''"

text \<open>The loop of \<open>allElements\<close>: each matcher is applied to what the one before it found; a
  matcher that throws ends the loop.\<close>

fun run_matchers :: "LocatorMatcher list \<Rightarrow> node list \<Rightarrow> error + node list" where
  "run_matchers [] found = Inr found"
| "run_matchers (m # ms) found =
     (case match m found of Inl err \<Rightarrow> Inl err | Inr found' \<Rightarrow> run_matchers ms found')"

definition allElements :: "ScreenLocator \<Rightarrow> error + node list" where
  "allElements this = run_matchers (matchers this) [root this]"

definition element :: "ScreenLocator \<Rightarrow> error + node" where
  "element this =
     (case allElements this of
        Inl err \<Rightarrow> Inl err
      | Inr elems \<Rightarrow>
          if length elems = 0 then
            Inl (Error (''no elements found but expected one: '' @ formatDescription this))
          else if length elems > 1 then
            Inl (Error (''multiple elements found but expected one: '' @ formatDescription this))
          else Inr (elems ! 0))"

subsection \<open>Locator objects\<close>

text \<open>
  Where it matters which object a method returns, the locators live in a store: a reference
  is an index into it, and \<open>new ScreenLocator(...)\<close> puts the new object behind the next
  free reference. The chaining methods follow the source statement by statement; the value
  of the object they return is the one the functions above compute.
\<close>

type_synonym store = "ScreenLocator list"

definition new_ScreenLocator :: "store \<Rightarrow> ScreenLocator \<Rightarrow> store \<times> nat" where
  "new_ScreenLocator h obj = (h @ [obj], length h)"

definition chainLocator_ref :: "store \<Rightarrow> nat \<Rightarrow> string \<Rightarrow> Matcher \<Rightarrow> store \<times> nat" where
  "chainLocator_ref h this d m =
     new_ScreenLocator h
       \<lparr>act = act (h ! this), root = root (h ! this),
        matchers = matchers (h ! this) @ [\<lparr>description = d, match = m\<rparr>]\<rparr>"

definition locate_ref :: "selector_engine \<Rightarrow> store \<Rightarrow> nat \<Rightarrow> string \<Rightarrow> store \<times> nat" where
  "locate_ref css h this selector =
     (if selector = '''' then (h, this)
      else chainLocator_ref h this (''locate('' @ selector @ '')'')
             (\<lambda>prev. matchQuerySelector css prev selector))"

definition filterText_ref :: "store \<Rightarrow> nat \<Rightarrow> string_or_RegExp \<Rightarrow> store \<times> nat" where
  "filterText_ref h this s =
     chainLocator_ref h this (''filterText('' @ template s @ '')'')
       (\<lambda>prev. Inr (fst (filterText prev s)))"

definition locateRole_ref :: "store \<Rightarrow> nat \<Rightarrow> string \<Rightarrow> store \<times> nat" where
  "locateRole_ref h this role =
     chainLocator_ref h this (''locateRole('' @ role @ '')'') (\<lambda>prev. Inr (matchRole prev role))"

fun locateText_ref :: "store \<Rightarrow> nat \<Rightarrow> string_or_RegExp \<Rightarrow> store \<times> nat" where
  "locateText_ref h this (IsRegExp s) =
     chainLocator_ref h this (''locateText(regexp: '' @ RegExp_toString s @ '')'')
       (\<lambda>prev. Inr (fst (matchRegExp prev s)))"
| "locateText_ref h this (IsString s) =
     chainLocator_ref h this (''locateText('' @ s @ '')'') (\<lambda>prev. Inr (matchText prev s))"

definition first_ref :: "store \<Rightarrow> nat \<Rightarrow> store \<times> nat" where
  "first_ref h this = chainLocator_ref h this ''first()'' first_match"

section \<open>Acting on the matched element\<close>

text \<open>
  An entry of the table \<open>KeyPress\<close> (module \<open>keypress.ts\<close>): the init dictionary of the keyboard
  events of one key, of which the source reads \<open>key\<close> and \<open>keyCode\<close> (a whole number). The
  table itself is a parameter of \<open>press\<close> below: \<open>None\<close> is \<open>undefined\<close>, a key the table
  does not have.
\<close>

record KeyEvent =
  key :: string
  keyCode :: int

text \<open>The events the source constructs, by constructor and type, and what it does to an
  element (known by its ident), in the order it does it. What the listeners of the page do
  in answer is not part of the model.\<close>

datatype event =
  FocusEvent string | MouseEvent string | KeyboardEvent string KeyEvent | Event string

datatype effect = Dispatched nat event | Focus nat | Blur nat

record page =
  tree :: node
  log :: "effect list"

fun ident_of :: "node \<Rightarrow> nat" where
  "ident_of (Element p cs) = ident p"
| "ident_of _ = 0"

fun tagName_of :: "node \<Rightarrow> string" where
  "tagName_of (Element p cs) = tagName p"
| "tagName_of _ = []"

fun iface_of :: "node \<Rightarrow> iface" where
  "iface_of (Element p cs) = iface p"
| "iface_of _ = PlainElement"



definition dispatchEvent :: "node \<Rightarrow> event \<Rightarrow> page \<Rightarrow> page" where
  "dispatchEvent elem ev s = s\<lparr>log := log s @ [Dispatched (ident_of elem) ev]\<rparr>"

definition focus :: "node \<Rightarrow> page \<Rightarrow> page" where
  "focus elem s = s\<lparr>log := log s @ [Focus (ident_of elem)]\<rparr>"

definition blur_element :: "node \<Rightarrow> page \<Rightarrow> page" where
  "blur_element elem s = s\<lparr>log := log s @ [Blur (ident_of elem)]\<rparr>"

text \<open>
  The \<open>value\<close> setters are the host's, and a control may sanitize what it is given: a text
  input drops the line breaks of the string, a select element takes only the value of one of
  its options. \<open>setters n elem v\<close> is the \<open>value\<close> that the element \<open>elem\<close> has once the setter
  function \<open>n\<close> was called on it with the string \<open>v\<close>.
\<close>

type_synonym value_setters = "nat \<Rightarrow> node \<Rightarrow> string \<Rightarrow> string"

text \<open>The tree with the \<open>value\<close> of the element with ident \<open>i\<close> replaced by \<open>v\<close>.\<close>

fun set_value :: "nat \<Rightarrow> string \<Rightarrow> node \<Rightarrow> node" where
  "set_value i v (Element p cs) =
     Element (if ident p = i then p\<lparr>val := v\<rparr> else p) (map (set_value i v) cs)"
| "set_value i v (Text s) = Text s"
| "set_value i v (Comment s) = Comment s"

text \<open>\<open>setter.call(element, v)\<close>.\<close>

definition call_setter :: "value_setters \<Rightarrow> nat \<Rightarrow> node \<Rightarrow> string \<Rightarrow> page \<Rightarrow> page" where
  "call_setter setters n elem v s =
     s\<lparr>tree := set_value (ident_of elem) (setters n elem v) (tree s)\<rparr>"

definition isPrintable :: "int \<Rightarrow> bool" where
  "isPrintable code = (33 \<le> code \<and> code < 127)"

text \<open>
  \<open>setElementValue\<close>: the prototype's setter is called when there is one and the element's
  own setter is another one (or missing). Otherwise the own setter is called when there is
  one, and in either remaining case the function throws.
\<close>

definition setElementValue ::
  "value_setters \<Rightarrow> node \<Rightarrow> (string \<Rightarrow> string) \<Rightarrow> page \<Rightarrow> (error + unit) \<times> page" where
  "setElementValue setters elem setValue s =
     (case props_of elem of
        None \<Rightarrow> (Inl (Error ''element does not have a value setter''), s)
      | Some p \<Rightarrow>
          (case prototypeSetter p of
             Some prototypeSetter' \<Rightarrow>
               if directSetter p \<noteq> Some prototypeSetter' then
                 (Inr (), call_setter setters prototypeSetter' elem (setValue (val p)) s)
               else
                 (Inl (Error ''element does not have a value setter''),
                  call_setter setters prototypeSetter' elem (setValue (val p)) s)
           | None \<Rightarrow>
               (case directSetter p of
                  Some directSetter' \<Rightarrow>
                    (Inl (Error ''element does not have a value setter''),
                     call_setter setters directSetter' elem (setValue (val p)) s)
                | None \<Rightarrow> (Inl (Error ''element does not have a value setter''), s))))"

definition nl :: string where
  "nl = [CHR 0x0A]"

definition initHintMsg :: string where
  "initHintMsg =
     nl @ ''HINT: call DomScreen.initTest() at the top of the test file. For example:'' @ nl @
     nl @ ''   import { act } from '' @ [CHR 0x27] @ ''react'' @ [CHR 0x27] @ '';'' @ nl @
     ''   import { DomScreen } from '' @ [CHR 0x27] @ ''dom-screen'' @ [CHR 0x27] @ '';'' @ nl @
     nl @ ''   DomScreen.initTest({ act, expect, afterEach });'' @ nl"

text \<open>
  Calling a runner with a callback. A runner supplied by the caller calls the callback and
  returns what it returns. \<open>DomScreen.globalAct\<close> throws while the module's variable
  \<open>globalAct\<close> (the first argument) is unset, and hands the callback to that runner
  otherwise.
\<close>

definition call_act ::
  "DomScreenAct option \<Rightarrow> DomScreenAct \<Rightarrow> ('s \<Rightarrow> (error + 'a) \<times> 's) \<Rightarrow> 's \<Rightarrow> (error + 'a) \<times> 's" where
  "call_act globalAct a cb s =
     (case a of
        Act n \<Rightarrow> cb s
      | DomScreen_globalAct \<Rightarrow>
          (case globalAct of
             None \<Rightarrow>
               (Inl (Error (''DomScreen.initTest() not called before DomScreen.globalAct().''
                            @ initHintMsg)), s)
           | Some g \<Rightarrow> cb s))"

text \<open>The four actions start from the tree below the locator's root and an empty log; an
  action that throws returns the error with the page as the throw left it.\<close>

definition page_of :: "ScreenLocator \<Rightarrow> page" where
  "page_of this = \<lparr>tree = root this, log = []\<rparr>"

definition click :: "DomScreenAct option \<Rightarrow> ScreenLocator \<Rightarrow> (error + unit) \<times> page" where
  "click globalAct this =
     (case allElements this of
        Inl err \<Rightarrow> (Inl err, page_of this)
      | Inr elems \<Rightarrow>
          if length elems = 0 then
            (Inl (Error (''no elements found to click: '' @ formatDescription this)), page_of this)
          else if length elems > 1 then
            (Inl (Error (''multiple elements found to click: '' @ formatDescription this)),
             page_of this)
          else
            (let elem = elems ! 0
             in call_act globalAct (act this)
                  (\<lambda>s. (Inr (),
                        dispatchEvent elem (FocusEvent ''blur'')
                          (dispatchEvent elem (MouseEvent ''click'')
                            (dispatchEvent elem (FocusEvent ''focus'') s))))
                  (page_of this)))"

definition press ::
  "DomScreenAct option \<Rightarrow> (string \<Rightarrow> KeyEvent option) \<Rightarrow> value_setters \<Rightarrow> ScreenLocator \<Rightarrow>
     string \<Rightarrow> (error + unit) \<times> page" where
  "press globalAct KeyPress setters this k =
     (case allElements this of
        Inl err \<Rightarrow> (Inl err, page_of this)
      | Inr elems \<Rightarrow>
          if length elems = 0 then
            (Inl (Error (''no elements found to press: '' @ formatDescription this)), page_of this)
          else if length elems > 1 then
            (Inl (Error (''multiple elements found to press: '' @ formatDescription this)),
             page_of this)
          else
            (let elem = elems ! 0
             in if iface_of elem \<noteq> HTMLInputElement \<and> iface_of elem \<noteq> HTMLTextAreaElement \<and>
                   iface_of elem \<noteq> HTMLSelectElement then
                  (Inl (Error (''cannot press key on tag: '' @ toLowerCase (tagName_of elem))),
                   page_of this)
                else
                  (case KeyPress k of
                     None \<Rightarrow>
                       (Inl (Error (''unknown key: '' @ k @ ''; maybe not yet added to KeyPress?'')),
                        page_of this)
                   | Some keyEv \<Rightarrow>
                       call_act globalAct (act this)
                         (\<lambda>s0.
                            let s1 = focus elem s0;
                                s2 = dispatchEvent elem (FocusEvent ''focus'') s1;
                                s3 = dispatchEvent elem (KeyboardEvent ''keydown'' keyEv) s2;
                                s4 = dispatchEvent elem (KeyboardEvent ''keyup'' keyEv) s3
                            in (case (if isPrintable (keyCode keyEv)
                                      then setElementValue setters elem (\<lambda>old. old @ key keyEv) s4
                                      else (Inr (), s4)) of
                                  (Inl err, s5) \<Rightarrow> (Inl err, s5)
                                | (Inr u, s5) \<Rightarrow>
                                    (Inr (),
                                     dispatchEvent elem (Event ''change'')
                                       (dispatchEvent elem (Event ''input'')
                                         (dispatchEvent elem (KeyboardEvent ''keypress'' keyEv) s5)))))
                         (page_of this))))"

definition fill ::
  "DomScreenAct option \<Rightarrow> value_setters \<Rightarrow> ScreenLocator \<Rightarrow> string \<Rightarrow> (error + unit) \<times> page" where
  "fill globalAct setters this v =
     (case allElements this of
        Inl err \<Rightarrow> (Inl err, page_of this)
      | Inr elems \<Rightarrow>
          if length elems = 0 then
            (Inl (Error (''no elements found to fill: '' @ formatDescription this)), page_of this)
          else if length elems > 1 then
            (Inl (Error (''multiple elements found to fill: '' @ formatDescription this)),
             page_of this)
          else
            (let elem = elems ! 0
             in if iface_of elem \<noteq> HTMLInputElement \<and> iface_of elem \<noteq> HTMLTextAreaElement \<and>
                   iface_of elem \<noteq> HTMLSelectElement then
                  (Inl (Error (''cannot fill out tag: '' @ toLowerCase (tagName_of elem))),
                   page_of this)
                else
                  call_act globalAct (act this)
                    (\<lambda>s0.
                       let s1 = focus elem s0;
                           s2 = dispatchEvent elem (FocusEvent ''focus'') s1
                       in (case setElementValue setters elem (\<lambda>old. v) s2 of
                             (Inl err, s3) \<Rightarrow> (Inl err, s3)
                           | (Inr u, s3) \<Rightarrow>
                               (Inr (),
                                dispatchEvent elem (FocusEvent ''blur'')
                                  (blur_element elem
                                    (dispatchEvent elem (Event ''change'')
                                      (dispatchEvent elem (Event ''input'') s3))))))
                    (page_of this)))"

definition blur :: "DomScreenAct option \<Rightarrow> ScreenLocator \<Rightarrow> (error + unit) \<times> page" where
  "blur globalAct this =
     (case allElements this of
        Inl err \<Rightarrow> (Inl err, page_of this)
      | Inr elems \<Rightarrow>
          if length elems = 0 then
            (Inl (Error (''no elements found to fill: '' @ formatDescription this)), page_of this)
          else if length elems > 1 then
            (Inl (Error (''multiple elements found to fill: '' @ formatDescription this)),
             page_of this)
          else
            (let elem = elems ! 0
             in call_act globalAct (act this)
                  (\<lambda>s0.
                     let s1 = (if iface_of elem \<noteq> PlainElement then blur_element elem s0 else s0)
                     in (Inr (), dispatchEvent elem (FocusEvent ''blur'') s1))
                  (page_of this)))"

section \<open>Formatting of failure messages\<close>

definition esc :: string where
  "esc = [CHR 0x1B]"

definition tty_red :: "string \<Rightarrow> string" where
  "tty_red s = (if s = '''' then s else esc @ ''[31m'' @ s @ esc @ ''[39m'')"

definition tty_green :: "string \<Rightarrow> string" where
  "tty_green s = (if s = '''' then s else esc @ ''[32m'' @ s @ esc @ ''[39m'')"

definition tty_dim :: "string \<Rightarrow> string" where
  "tty_dim s = (if s = '''' then s else esc @ ''[2m'' @ s @ esc @ ''[22m'')"

text \<open>The values the matchers hand to \<open>Testing.stringify\<close>. The pretty-printer is the
  host's: it is the field \<open>stringify\<close> of the record below, with the \<open>maxWidth\<close> option as
  its second argument (\<open>None\<close> when the call gives no options).\<close>

datatype js_value = JString string | JElement node | JElements "node list"

text \<open>What the matchers take from their host: the selector engine, the pretty-printer, and
  the path of a URL (\<open>new URL(u).pathname\<close>).\<close>

record Testing_host =
  engine :: selector_engine
  stringify :: "js_value \<Rightarrow> nat option \<Rightarrow> string"
  pathname :: "string \<Rightarrow> string"

definition formatMatcher :: "string \<Rightarrow> string \<Rightarrow> string \<Rightarrow> bool \<Rightarrow> string" where
  "formatMatcher matcherName received expected not_flag =
     tty_dim ''expect('' @ tty_red received @ tty_dim '')'' @
     (if not_flag then tty_dim ''.not'' else '''') @
     tty_dim (''.'' @ matcherName @ ''('') @ tty_green expected @ tty_dim '')''"

definition colorReceived :: "string \<Rightarrow> string" where
  "colorReceived v = tty_red v"

definition formatReceived :: "Testing_host \<Rightarrow> js_value \<Rightarrow> string" where
  "formatReceived host v = colorReceived (stringify host v None)"

definition colorExpected :: "string \<Rightarrow> string" where
  "colorExpected v = tty_green v"

definition formatExpected :: "Testing_host \<Rightarrow> js_value \<Rightarrow> string" where
  "formatExpected host v = colorExpected (stringify host v None)"

section \<open>DomScreen, as the matchers import it\<close>

text \<open>
  The class \<open>DomScreen\<close> whose members the matchers use (\<open>receiver.locate\<close> and the static
  \<open>DomScreen.globalAct\<close>): a screen holds its container and the zero-step locator on it, and
  \<open>locate\<close>, \<open>locateRole\<close> and \<open>locateText\<close> pass through to that locator.
\<close>

record DomScreen =
  container :: node
  loc :: ScreenLocator

definition new_DomScreen :: "DomScreenAct \<Rightarrow> node \<Rightarrow> DomScreen" where
  "new_DomScreen globalAct c = \<lparr>container = c, loc = ScreenLocator_of globalAct c\<rparr>"

definition DomScreen_locate :: "selector_engine \<Rightarrow> DomScreen \<Rightarrow> string \<Rightarrow> ScreenLocator" where
  "DomScreen_locate css this selector = locate css (loc this) selector"

definition DomScreen_locateRole :: "DomScreen \<Rightarrow> string \<Rightarrow> ScreenLocator" where
  "DomScreen_locateRole this role = locateRole (loc this) role"

definition DomScreen_locateText :: "DomScreen \<Rightarrow> string_or_RegExp \<Rightarrow> ScreenLocator" where
  "DomScreen_locateText this s = locateText (loc this) s"

section \<open>Assertion matchers\<close>

text \<open>The receiver of a matcher is any value: an instance of \<open>DomScreen\<close>, an instance of
  \<open>ScreenLocator\<close>, an \<open>Element\<close>, or something else, of which the source only prints the
  string that a template literal makes of it.\<close>

datatype receiver =
  ADomScreen DomScreen | AScreenLocator ScreenLocator | AnElement node | AnotherValue string

record MatcherContext =
  isNot :: bool
  promise :: string

record MatcherResult =
  pass :: bool
  message :: string

definition and_then :: "error + 'a \<Rightarrow> ('a \<Rightarrow> error + 'b) \<Rightarrow> error + 'b" where
  "and_then r f = (case r of Inl err \<Rightarrow> Inl err | Inr x \<Rightarrow> f x)"

definition verifyReceiver :: "selector_engine \<Rightarrow> receiver \<Rightarrow> error + ScreenLocator" where
  "verifyReceiver css receiver =
     (case receiver of
        ADomScreen s \<Rightarrow> Inr (DomScreen_locate css s '''')
      | AScreenLocator l \<Rightarrow> Inr l
      | AnElement e \<Rightarrow> Inr (ScreenLocator_of DomScreen_globalAct e)
      | AnotherValue v \<Rightarrow>
          Inl (Error (''Expected receiver to be a DomScreen or ScreenLocator, got '' @ v)))"

definition isScreenRoot :: "ScreenLocator \<Rightarrow> bool" where
  "isScreenRoot l = (tagName_of (root l) = ''DOM-SCREEN'')"

definition describeLocator :: "Testing_host \<Rightarrow> ScreenLocator \<Rightarrow> string" where
  "describeLocator host l =
     (if isScreenRoot l then
        (let locs = join (describe l) ''.''
         in if locs \<noteq> '''' then ''screen'' @ ''.'' @ locs else ''screen'')
      else
        (let msg = stringify host (JElement (root l)) (Some 10);
             locs = formatDescription l
         in if locs \<noteq> '''' then msg @ '' -> '' @ locs else msg))"

definition formatReceivedLocatorResults :: "Testing_host \<Rightarrow> node list \<Rightarrow> string" where
  "formatReceivedLocatorResults host elems =
     (if length elems = 0 then colorReceived ''no elements''
      else formatReceived host (if length elems = 1 then JElement (elems ! 0) else JElements elems))"

text \<open>\<open>elems.filter((el) => el.matches(selector))\<close>; the first call of \<open>matches\<close> that throws
  ends it.\<close>

fun filter_matches :: "selector_engine \<Rightarrow> node list \<Rightarrow> string \<Rightarrow> error + node list" where
  "filter_matches css [] selector = Inr []"
| "filter_matches css (el # els) selector =
     and_then (matches css el selector) (\<lambda>b.
     and_then (filter_matches css els selector) (\<lambda>rest.
       Inr (if b then el # rest else rest)))"

definition toMatchSelector ::
  "Testing_host \<Rightarrow> MatcherContext \<Rightarrow> receiver \<Rightarrow> string \<Rightarrow> error + MatcherResult" where
  "toMatchSelector host this receiver selector =
     and_then (verifyReceiver (engine host) receiver) (\<lambda>l.
     and_then (allElements l) (\<lambda>all.
     and_then (filter_matches (engine host) all selector) (\<lambda>gotDirect.
     and_then (allElements (locate (engine host) l selector)) (\<lambda>gotDesc.
       let p = (length gotDirect > 0 \<or> length gotDesc > 0)
       in Inr \<lparr>pass = p,
               message = join
                 [formatMatcher ''toMatchSelector'' (describeLocator host l) selector (isNot this),
                  '''',
                  ''Expected: selector '' @ formatExpected host (JString selector) @ '' to'' @
                    (if p then '' not'' else '''') @
                    '' to match any element in the DOM root after applying locators'',
                  ''DOM root: '' @ formatReceived host (JElement (root l)),
                  ''Locators: '' @ colorReceived (formatDescription l),
                  ''Matched:  '' @ formatReceivedLocatorResults host (gotDirect @ gotDesc)]
                 nl\<rparr>))))"

definition toHaveClass ::
  "Testing_host \<Rightarrow> MatcherContext \<Rightarrow> receiver \<Rightarrow> string \<Rightarrow> error + MatcherResult" where
  "toHaveClass host this receiver className =
     and_then (verifyReceiver (engine host) receiver) (\<lambda>l.
       let classSel = ''.'' @ join (map trim (split className CHR '' '')) ''.''
       in
     and_then (allElements l) (\<lambda>all.
     and_then (filter_matches (engine host) all classSel) (\<lambda>gotDirect.
     and_then (allElements (locate (engine host) l classSel)) (\<lambda>gotDesc.
       let p = (length gotDirect > 0 \<or> length gotDesc > 0)
       in Inr \<lparr>pass = p,
               message = join
                 [formatMatcher ''toHaveClass'' (describeLocator host l) className (isNot this),
                  '''',
                  ''Expected: class names '' @ formatExpected host (JString className) @ '' to'' @
                    (if p then '' not'' else '''') @
                    '' match any element in the DOM root after applying locators'',
                  ''DOM root: '' @ formatReceived host (JElement (root l)),
                  ''Locators: '' @ colorReceived (formatDescription l),
                  ''Matched:  '' @ formatReceivedLocatorResults host (gotDirect @ gotDesc)]
                 nl\<rparr>))))"

definition toContainText ::
  "Testing_host \<Rightarrow> MatcherContext \<Rightarrow> receiver \<Rightarrow> string_or_RegExp \<Rightarrow> error + MatcherResult" where
  "toContainText host this receiver txt =
     and_then (verifyReceiver (engine host) receiver) (\<lambda>l.
     and_then (allElements (locator_filterText l txt)) (\<lambda>gotDirect.
       let p = (length gotDirect > 0);
           kind = (case txt of IsString s \<Rightarrow> ''contain substring'' | IsRegExp re \<Rightarrow> ''match regexp'')
       in Inr \<lparr>pass = p,
               message = join
                 [formatMatcher ''toContainText'' (describeLocator host l) (template txt) (isNot this),
                  '''',
                  ''Expected: one element to '' @ kind @ '' '' @ template txt @ '' to'' @
                    (if p then '' not'' else '''') @
                    '' match DOM root node after applying locators'',
                  ''DOM root: '' @ formatReceived host (JElement (root l)),
                  ''Locators: '' @ colorReceived (formatDescription l),
                  ''Matched:  '' @ formatReceivedLocatorResults host gotDirect]
                 nl\<rparr>))"

fun ownerDocument_of :: "node \<Rightarrow> document" where
  "ownerDocument_of (Element p cs) = ownerDocument p"
| "ownerDocument_of _ = \<lparr>URL = '''', title = ''''\<rparr>"

definition toHaveURLPath ::
  "Testing_host \<Rightarrow> MatcherContext \<Rightarrow> receiver \<Rightarrow> string \<Rightarrow> error + MatcherResult" where
  "toHaveURLPath host this receiver path =
     and_then (verifyReceiver (engine host) receiver) (\<lambda>l.
       let doc = ownerDocument_of (root l);
           gotURL = URL doc;
           gotPath = pathname host gotURL;
           p = (gotPath = path)
       in Inr \<lparr>pass = p,
               message = join
                 [formatMatcher ''toHaveURL'' (describeLocator host l) path (isNot this),
                  '''',
                  ''Expected: URL '' @ formatExpected host (JString path) @ '' to'' @
                    (if p then '' not'' else '''') @ '' match the current page URL'',
                  ''Current URL: '' @ formatReceived host (JString gotPath)]
                 nl\<rparr>)"

definition toHaveTitle ::
  "Testing_host \<Rightarrow> MatcherContext \<Rightarrow> receiver \<Rightarrow> string \<Rightarrow> error + MatcherResult" where
  "toHaveTitle host this receiver expected =
     and_then (verifyReceiver (engine host) receiver) (\<lambda>l.
       let doc = ownerDocument_of (root l);
           gotTitle = title doc;
           p = (gotTitle = expected)
       in Inr \<lparr>pass = p,
               message = join
                 [formatMatcher ''toHaveTitle'' (describeLocator host l) expected (isNot this),
                  '''',
                  ''Expected: title '' @ formatExpected host (JString expected) @ '' to'' @
                    (if p then '' not'' else '''') @ '' match the current page title'',
                  ''Current title: '' @ formatReceived host (JString gotTitle)]
                 nl\<rparr>)"

definition toBeInDocument ::
  "Testing_host \<Rightarrow> MatcherContext \<Rightarrow> receiver \<Rightarrow> error + MatcherResult" where
  "toBeInDocument host this receiver =
     and_then (verifyReceiver (engine host) receiver) (\<lambda>l.
     and_then (allElements l) (\<lambda>all.
       Inr \<lparr>pass = (length all > 0),
            message = join
              [formatMatcher ''toBeInDocument'' (describeLocator host l) '''' (isNot this),
               '''',
               ''Expected: to be in the document'',
               ''DOM root: '' @ formatReceived host (JElement (root l)),
               ''Locators: '' @ colorReceived (formatDescription l),
               ''Matched:  '' @ formatReceivedLocatorResults host all]
              nl\<rparr>))"

section \<open>The retry wrapper\<close>

text \<open>
  What the wrapper does, in order: a call of the wrapped matcher, or a timeout of so many
  milliseconds. While the wrapper waits, the pending work of the page goes on: \<open>settle ms r\<close>
  is the receiver as a timeout of \<open>ms\<close> milliseconds leaves the objects behind \<open>r\<close>.
\<close>

datatype attempt = Evaluated | Slept nat

type_synonym 'arg SyncMatcher = "MatcherContext \<Rightarrow> receiver \<Rightarrow> 'arg \<Rightarrow> error + MatcherResult"

function waitForSuccess_loop ::
  "(nat \<Rightarrow> receiver \<Rightarrow> receiver) \<Rightarrow> 'arg SyncMatcher \<Rightarrow> MatcherContext \<Rightarrow> 'arg \<Rightarrow>
     nat \<Rightarrow> nat \<Rightarrow> MatcherResult option \<Rightarrow> receiver \<times> attempt list \<Rightarrow>
     (error + MatcherResult) \<times> receiver \<times> attempt list" where
  "waitForSuccess_loop settle fn this arg i sleepMillis result (receiver, trace) =
     (if i < 4 then
        (case fn this receiver arg of
           Inl err \<Rightarrow> (Inl err, receiver, trace @ [Evaluated])
         | Inr r \<Rightarrow>
             if isNot this \<noteq> pass r then (Inr r, receiver, trace @ [Evaluated])
             else waitForSuccess_loop settle fn this arg (i + 1) (sleepMillis * 2) (Some r)
                    (settle sleepMillis receiver, trace @ [Evaluated, Slept sleepMillis]))
      else
        (case result of
           None \<Rightarrow> (Inl (Error ''result must be defined''), receiver, trace)
         | Some r \<Rightarrow> (Inr r, receiver, trace)))"
  by pat_completeness auto
termination
  by (relation "measure (\<lambda>(settle, fn, this, arg, i, sleepMillis, result, s). 4 - i)") auto

definition waitForSuccess ::
  "DomScreenAct option \<Rightarrow> (nat \<Rightarrow> receiver \<Rightarrow> receiver) \<Rightarrow> 'arg SyncMatcher \<Rightarrow>
     MatcherContext \<Rightarrow> receiver \<Rightarrow> 'arg \<Rightarrow> (error + MatcherResult) \<times> receiver \<times> attempt list" where
  "waitForSuccess globalAct settle fn this receiver arg =
     call_act globalAct DomScreen_globalAct
       (waitForSuccess_loop settle fn this arg 0 5 None) (receiver, [])"

text \<open>The matchers as they are registered: five as they are, one wrapped.\<close>

record screenMatchers_entries =
  entry_toMatchSelector :: "string SyncMatcher"
  entry_toHaveClass :: "string SyncMatcher"
  entry_toContainText :: "string_or_RegExp SyncMatcher"
  entry_toHaveURLPath ::
    "MatcherContext \<Rightarrow> receiver \<Rightarrow> string \<Rightarrow> (error + MatcherResult) \<times> receiver \<times> attempt list"
  entry_toHaveTitle :: "string SyncMatcher"
  entry_toBeInDocument :: "MatcherContext \<Rightarrow> receiver \<Rightarrow> error + MatcherResult"

definition screenMatchers ::
  "Testing_host \<Rightarrow> DomScreenAct option \<Rightarrow> (nat \<Rightarrow> receiver \<Rightarrow> receiver) \<Rightarrow>
     screenMatchers_entries" where
  "screenMatchers host globalAct settle =
     \<lparr>entry_toMatchSelector = toMatchSelector host,
      entry_toHaveClass = toHaveClass host,
      entry_toContainText = toContainText host,
      entry_toHaveURLPath = waitForSuccess globalAct settle (toHaveURLPath host),
      entry_toHaveTitle = toHaveTitle host,
      entry_toBeInDocument = toBeInDocument host\<rparr>"

section \<open>DomScreen with a render lifecycle\<close>

text \<open>
  What \<open>render\<close> and the teardown touch of the host: whether \<open>globalThis.document\<close> is
  there, the children of \<open>document.body\<close>, the document's own fields, the global flag
  \<open>IS_REACT_ACT_ENVIRONMENT\<close>, and the identity the next created element gets. A container is
  either a child of the body or has no parent.
\<close>

record world =
  document_defined :: bool
  body :: "node list"
  doc :: document
  IS_REACT_ACT_ENVIRONMENT :: bool
  next_ident :: nat

type_synonym 'a action = "world \<Rightarrow> (error + 'a) \<times> world"

text \<open>The lifecycle is the caller's: its three operations are any actions on the host.\<close>

record ('r, 'n) RenderLifecycle =
  createRoot :: "node \<Rightarrow> 'r action"
  render_node :: "'r \<Rightarrow> 'n \<Rightarrow> unit action"
  destroyRoot :: "'r \<Rightarrow> unit action"
  lifecycle_act :: DomScreenAct

record ('r, 'n) LifecycleDomScreen =
  lifecycle :: "('r, 'n) RenderLifecycle"
  cleanups :: "unit action list"

definition createElement :: "string \<Rightarrow> world \<Rightarrow> node \<times> world" where
  "createElement tag w =
     (Element \<lparr>ident = next_ident w, tagName = ascii_uppercase tag, iface = HTMLElement,
               attributes = [], val = '''', directSetter = None, prototypeSetter = None,
               ownerDocument = doc w\<rparr> [],
      w\<lparr>next_ident := next_ident w + 1\<rparr>)"

text \<open>The thunk that \<open>render\<close> pushes on \<open>cleanups\<close>, for the root and the container of that
  call.\<close>

definition teardown ::
  "DomScreenAct option \<Rightarrow> ('r, 'n) RenderLifecycle \<Rightarrow> 'r \<Rightarrow> nat \<Rightarrow> unit action" where
  "teardown globalAct lc r container_id w =
     (case call_act globalAct (lifecycle_act lc) (destroyRoot lc r) w of
        (Inl err, w1) \<Rightarrow> (Inl err, w1)
      | (Inr u, w1) \<Rightarrow>
          if container_id \<notin> set (map ident_of (body w1)) then
            (Inl (Error ''container parentNode is null during cleanup.''), w1)
          else
            (Inr (),
             w1\<lparr>body := filter (\<lambda>c. ident_of c \<noteq> container_id) (body w1),
                doc := (doc w1)\<lparr>title := ''''\<rparr>\<rparr>))"

text \<open>The container as the host has it after the content was rendered into it.\<close>

definition container_now :: "node \<Rightarrow> world \<Rightarrow> node" where
  "container_now c w =
     (case filter (\<lambda>b. ident_of b = ident_of c) (body w) of [] \<Rightarrow> c | b # bs \<Rightarrow> b)"

definition render ::
  "DomScreenAct option \<Rightarrow> ('r, 'n) LifecycleDomScreen \<Rightarrow> 'n \<Rightarrow> world \<Rightarrow>
     (error + ScreenLocator) \<times> ('r, 'n) LifecycleDomScreen \<times> world" where
  "render globalAct this n w =
     (if \<not> document_defined w then
        (Inl (Error ''document is not defined. Is jsdom or a similar library installed?''),
         this, w)
      else
        (case createElement ''dom-screen'' w of
           (c, w1) \<Rightarrow>
             (let w2 = w1\<lparr>body := body w1 @ [c]\<rparr>
              in case createRoot (lifecycle this) c w2 of
                   (Inl err, w3) \<Rightarrow> (Inl err, this, w3)
                 | (Inr r, w3) \<Rightarrow>
                     (case call_act globalAct (lifecycle_act (lifecycle this))
                             (render_node (lifecycle this) r n) w3 of
                        (Inl err, w4) \<Rightarrow> (Inl err, this, w4)
                      | (Inr u, w4) \<Rightarrow>
                          (Inr (ScreenLocator_of (lifecycle_act (lifecycle this))
                                  (container_now c w4)),
                           this\<lparr>cleanups :=
                                  cleanups this @ [teardown globalAct (lifecycle this) r (ident_of c)]\<rparr>,
                           w4)))))"

text \<open>
  The loop of \<open>cleanup\<close> over \<open>this.cleanups\<close>. It returns, next to the outcome and the host,
  the thunks it has called, in the order of the calls; a thunk that throws ends the loop.
\<close>

fun run_cleanups ::
  "unit action list \<Rightarrow> world \<Rightarrow> (error + unit) \<times> world \<times> unit action list" where
  "run_cleanups [] w = (Inr (), w, [])"
| "run_cleanups (t # ts) w =
     (case t w of
        (Inl err, w1) \<Rightarrow> (Inl err, w1, [t])
      | (Inr u, w1) \<Rightarrow>
          (case run_cleanups ts w1 of (res, w2, called) \<Rightarrow> (res, w2, t # called)))"

definition cleanup ::
  "('r, 'n) LifecycleDomScreen \<Rightarrow> world \<Rightarrow>
     (error + unit) \<times> ('r, 'n) LifecycleDomScreen \<times> world \<times> unit action list" where
  "cleanup this w =
     (case run_cleanups (cleanups this) w of
        (Inl err, w1, called) \<Rightarrow> (Inl err, this, w1, called)
      | (Inr u, w1, called) \<Rightarrow> (Inr (), this\<lparr>cleanups := []\<rparr>, w1, called))"

text \<open>The \<open>cleanup\<close> of the class before the lifecycle was made a parameter: the same loop,
  after the global flag is cleared.\<close>

definition cleanup_react ::
  "unit action list \<Rightarrow> world \<Rightarrow> (error + unit) \<times> unit action list \<times> world \<times> unit action list" where
  "cleanup_react this_cleanups w =
     (case run_cleanups this_cleanups (w\<lparr>IS_REACT_ACT_ENVIRONMENT := False\<rparr>) of
        (Inl err, w1, called) \<Rightarrow> (Inl err, this_cleanups, w1, called)
      | (Inr u, w1, called) \<Rightarrow> (Inr (), [], w1, called))"

section \<open>The specification's reading of tokens and own text\<close>

text \<open>
  The whitespace-separated tokens of a string: its maximal runs of characters that are not
  whitespace, in order. This follows the specification's words (a list of tokens split on
  whitespace), not the source.
\<close>

function ws_tokens :: "string \<Rightarrow> string list" where
  "ws_tokens s =
     (case dropWhile isWhiteSpace s of
        [] \<Rightarrow> []
      | c # cs \<Rightarrow>
          (c # takeWhile (\<lambda>x. \<not> isWhiteSpace x) cs) #
            ws_tokens (dropWhile (\<lambda>x. \<not> isWhiteSpace x) cs))"
  by pat_completeness auto
termination
proof (relation "measure length")
  show "wf (measure length)" by simp
next
  fix s :: string and c :: char and cs :: string
  assume h: "dropWhile isWhiteSpace s = c # cs"
  have "length (dropWhile (\<lambda>x. \<not> isWhiteSpace x) cs) \<le> length cs"
    by (rule length_dropWhile_le)
  moreover have "length (c # cs) \<le> length s"
    using length_dropWhile_le [of isWhiteSpace s] h by simp
  ultimately show "(dropWhile (\<lambda>x. \<not> isWhiteSpace x) cs, s) \<in> measure length" by simp
qed

text \<open>The specification's own text of a string of direct text: every run of whitespace
  collapsed to one space and both ends trimmed, which leaves the tokens with one space
  between neighbours.\<close>

definition spec_collapse_and_trim :: "string \<Rightarrow> string" where
  "spec_collapse_and_trim s = join (ws_tokens s) '' ''"

text \<open>The specification's role match: the role is one of the whitespace-separated tokens of
  the role attribute, and an absent attribute has no tokens.\<close>

definition spec_hasRole :: "node \<Rightarrow> string \<Rightarrow> bool" where
  "spec_hasRole e role =
     (case getAttribute e ''role'' of None \<Rightarrow> False | Some a \<Rightarrow> role \<in> set (ws_tokens a))"

section \<open>Example pages\<close>

definition localhost :: document where
  "localhost = \<lparr>URL = ''http://localhost/'', title = ''''\<rparr>"

text \<open>An HTML element without a \<open>value\<close>, and a text input with the setter of
  \<open>HTMLInputElement.prototype\<close>.\<close>

definition html_element :: "nat \<Rightarrow> string \<Rightarrow> (string \<times> string) list \<Rightarrow> node list \<Rightarrow> node" where
  "html_element i tag attrs cs =
     Element \<lparr>ident = i, tagName = tag, iface = HTMLElement, attributes = attrs, val = '''',
              directSetter = None, prototypeSetter = None, ownerDocument = localhost\<rparr> cs"


text \<open>The page of the test \<open>filterText\<close> of \<open>screen_locator_test.tsx\<close>.\<close>

definition div_ab :: node where
  "div_ab = html_element 2 ''DIV'' [(''id'', ''ab'')] [Text ''alpha bravo'']"

definition div_abc :: node where
  "div_abc = html_element 3 ''DIV'' [(''id'', ''abc'')] [Text ''alpha bravo charlie'']"

definition div_abcd :: node where
  "div_abcd = html_element 4 ''DIV'' [(''id'', ''abcd'')] [Text ''alpha bravo charlie delta'']"

definition div_a :: node where
  "div_a = html_element 1 ''DIV'' [(''id'', ''a'')] [Text ''alpha'', div_ab, div_abc, div_abcd]"

definition filterText_screen :: node where
  "filterText_screen = html_element 0 ''DOM-SCREEN'' [] [div_a]"


text \<open>A selector engine that knows type selectors only: a selector of letters is the tag
  name it selects, and every other selector is rejected.\<close>

definition type_selectors :: selector_engine where
  "type_selectors selector =
     (if selector \<noteq> '''' \<and> list_all (\<lambda>c. 97 \<le> (of_char c :: nat) \<and> (of_char c :: nat) \<le> 122) selector
      then Some (\<lambda>scope d. tagName_of d = ascii_uppercase selector) else None)"

text \<open>A table with the two keys of the test \<open>input press key\<close>.\<close>

definition two_keys :: "string \<Rightarrow> KeyEvent option" where
  "two_keys k =
     (if k = ''F'' then Some \<lparr>key = ''F'', keyCode = 70\<rparr>
      else if k = ''Enter'' then Some \<lparr>key = ''Enter'', keyCode = 13\<rparr>
      else None)"


text \<open>The \<open>value\<close> setter of a text input: the value sanitization of a single-line text
  control strips the line feeds and the carriage returns of the string.\<close>

definition text_inputs :: value_setters where
  "text_inputs n elem v = filter (\<lambda>c. c \<noteq> CHR 0x0A \<and> c \<noteq> CHR 0x0D) v"

definition plain_host :: Testing_host where
  "plain_host =
     \<lparr>engine = type_selectors,
      stringify = (\<lambda>v w. case v of JString s \<Rightarrow> s | JElement e \<Rightarrow> tagName_of e
                          | JElements es \<Rightarrow> join (map tagName_of es) '',''),
      pathname = (\<lambda>u. drop 16 u)\<rparr>"

section \<open>Locators that the interface can build\<close>

text \<open>The constructor of \<open>ScreenLocator\<close> is private: a locator is made by \<open>ScreenLocator.of\<close>
  and by the chaining methods, with the selector engine of the host.\<close>

inductive built :: "selector_engine \<Rightarrow> ScreenLocator \<Rightarrow> bool" for css :: selector_engine where
  built_of: "built css (ScreenLocator_of a e)"
| built_locate: "built css l \<Longrightarrow> built css (locate css l selector)"
| built_filterText: "built css l \<Longrightarrow> built css (locator_filterText l s)"
| built_locateRole: "built css l \<Longrightarrow> built css (locateRole l role)"
| built_locateText: "built css l \<Longrightarrow> built css (locateText l s)"
| built_first: "built css l \<Longrightarrow> built css (first l)"

text \<open>Every node of \<open>res\<close> lies below a member of \<open>prev\<close> and is not that member.\<close>

definition strictly_below :: "node list \<Rightarrow> node list \<Rightarrow> bool" where
  "strictly_below prev res = (\<forall>d\<in>set res. \<exists>e\<in>set prev. d \<in> set (descendants e) \<and> d \<noteq> e)"

text \<open>The own normalized text of \<open>e\<close> matches \<open>q\<close>: it contains the string, or the pattern of
  the regular expression matches at some index of it.\<close>

definition own_text_matches :: "string_or_RegExp \<Rightarrow> node \<Rightarrow> bool" where
  "own_text_matches q e =
     (case q of
        IsString s \<Rightarrow> string_includes (getNormalizedText e) s
      | IsRegExp re \<Rightarrow> search_from (matcher re) False (getNormalizedText e) 0 \<noteq> None)"

text \<open>The argument \<open>q\<close> with another \<open>lastIndex\<close>: the same string, or the same regular
  expression object in another state.\<close>

fun with_lastIndex :: "string_or_RegExp \<Rightarrow> nat \<Rightarrow> string_or_RegExp" where
  "with_lastIndex (IsString s) i = IsString s"
| "with_lastIndex (IsRegExp re) i = IsRegExp (re\<lparr>lastIndex := i\<rparr>)"

text \<open>A string, or a regular expression without the flags \<open>g\<close> and \<open>y\<close>: one whose \<open>test\<close>
  keeps no position between calls.\<close>

definition stateless :: "string_or_RegExp \<Rightarrow> bool" where
  "stateless q =
     (case q of
        IsString s \<Rightarrow> True
      | IsRegExp re \<Rightarrow> CHR ''g'' \<notin> set (flags re) \<and> CHR ''y'' \<notin> set (flags re))"

text \<open>The matcher of a pattern that is one literal string, and the regular expression
  \<open>/alpha/g\<close> as the literal creates it.\<close>

definition literal :: "string \<Rightarrow> string \<Rightarrow> nat \<Rightarrow> nat option" where
  "literal lit S i = (if take (length lit) (drop i S) = lit then Some (i + length lit) else None)"

definition alpha_global :: RegExp where
  "alpha_global = \<lparr>source = ''alpha'', flags = ''g'', matcher = literal ''alpha'', lastIndex = 0\<rparr>"

text \<open>The locator \<open>alphaLoc\<close> of the test \<open>filterText\<close>.\<close>

definition alphaLoc :: ScreenLocator where
  "alphaLoc = locateText (ScreenLocator_of (Act 0) filterText_screen) (IsString ''alpha'')"

section \<open>Notions for the statements\<close>

text \<open>\<open>v\<close> is \<open>l\<close> with one step more: the same runner, the same root, and the matchers of
  \<open>l\<close> followed by one matcher.\<close>

definition extends_by_one :: "ScreenLocator \<Rightarrow> ScreenLocator \<Rightarrow> bool" where
  "extends_by_one l v =
     (act v = act l \<and> root v = root l \<and> length (matchers v) = length (matchers l) + 1 \<and>
      butlast (matchers v) = matchers l)"

text \<open>A method called on the object behind \<open>this\<close> in the store \<open>h\<close> returns a new locator
  and changes no object: the reference it returns was free, the objects of \<open>h\<close> are all as
  they were, the new object is the receiver with one step more, and the receiver finds what
  it found before.\<close>

definition returns_new :: "store \<Rightarrow> nat \<Rightarrow> store \<times> nat \<Rightarrow> bool" where
  "returns_new h this res =
     (case res of
        (h', r) \<Rightarrow>
          r = length h \<and> length h' = length h + 1 \<and> take (length h) h' = h \<and>
          extends_by_one (h ! this) (h' ! r) \<and>
          allElements (h' ! this) = allElements (h ! this))"

text \<open>The receiver as the \<open>i\<close>-th call of the wrapped matcher sees it: after the timeouts of
  5, 10, 20, ... milliseconds that went before.\<close>

fun receiver_at :: "(nat \<Rightarrow> receiver \<Rightarrow> receiver) \<Rightarrow> receiver \<Rightarrow> nat \<Rightarrow> receiver" where
  "receiver_at settle r 0 = r"
| "receiver_at settle r (Suc i) = settle (5 * 2 ^ i) (receiver_at settle r i)"

text \<open>A call of the wrapped matcher fails when it returns a result that, with the negation
  of the context, is no success.\<close>

definition failing :: "'arg SyncMatcher \<Rightarrow> MatcherContext \<Rightarrow> 'arg \<Rightarrow> receiver \<Rightarrow> bool" where
  "failing fn this arg r = (case fn this r arg of Inl err \<Rightarrow> False | Inr m \<Rightarrow> isNot this = pass m)"

definition evaluations :: "attempt list \<Rightarrow> nat" where
  "evaluations trace = length (filter (\<lambda>a. a = Evaluated) trace)"

definition delays :: "attempt list \<Rightarrow> nat list" where
  "delays trace = concat (map (\<lambda>a. case a of Evaluated \<Rightarrow> [] | Slept n \<Rightarrow> [n]) trace)"

text \<open>Two elements with a role attribute, one with a tab between the tokens, and one
  without the attribute.\<close>

definition two_roles :: node where
  "two_roles = html_element 1 ''DIV'' [(''role'', ''switch  checkbox'')] []"

definition tab_roles :: node where
  "tab_roles = html_element 2 ''DIV'' [(''role'', ''switch'' @ [CHR 0x09] @ ''checkbox'')] []"

definition no_role :: node where
  "no_role = html_element 3 ''DIV'' [] []"

text \<open>The zero-step locator on the page of the test \<open>filterText\<close>.\<close>

definition screenLoc :: ScreenLocator where
  "screenLoc = ScreenLocator_of (Act 0) filterText_screen"

text \<open>A lifecycle that mounts nothing: the root is known by the ident of its container, and
  no operation touches the host. And a host with an empty body.\<close>

definition idle_lifecycle :: "(nat, unit) RenderLifecycle" where
  "idle_lifecycle =
     \<lparr>createRoot = (\<lambda>c w. (Inr (ident_of c), w)),
      render_node = (\<lambda>r n w. (Inr (), w)),
      destroyRoot = (\<lambda>r w. (Inr (), w)),
      lifecycle_act = Act 0\<rparr>"

definition fresh_screen :: "(nat, unit) LifecycleDomScreen" where
  "fresh_screen = \<lparr>lifecycle = idle_lifecycle, cleanups = []\<rparr>"

definition empty_world :: world where
  "empty_world =
     \<lparr>document_defined = True, body = [], doc = localhost, IS_REACT_ACT_ENVIRONMENT = False,
      next_ident = 0\<rparr>"

text \<open>The context of a matcher that is not negated.\<close>

definition plain_context :: MatcherContext where
  "plain_context = \<lparr>isNot = False, promise = ''''\<rparr>"

text \<open>One \<open>render\<close> on the empty host, with the lifecycle that mounts nothing.\<close>

definition rendered_once ::
  "(error + ScreenLocator) \<times> (nat, unit) LifecycleDomScreen \<times> world" where
  "rendered_once = render None fresh_screen () empty_world"

text \<open>The host after the thunks \<open>ts\<close> were called one after the other from the first on,
  each on the host as the one before it left it.\<close>

definition run_in_order :: "unit action list \<Rightarrow> world \<Rightarrow> world" where
  "run_in_order ts w = foldl (\<lambda>w t. snd (t w)) w ts"

text \<open>Each thunk of \<open>ts\<close> returns when it is called on the host that the thunks before it
  have left.\<close>

definition all_return :: "unit action list \<Rightarrow> world \<Rightarrow> bool" where
  "all_return ts w = (\<forall>i<length ts. fst ((ts ! i) (run_in_order (take i ts) w)) = Inr ())"

text \<open>A lifecycle whose roots have to be destroyed oldest first: \<open>destroyRoot\<close> throws
  unless the container of the root (the root is known by the ident of its container) is the
  first child of the body.\<close>

definition oldest_first_lifecycle :: "(nat, unit) RenderLifecycle" where
  "oldest_first_lifecycle =
     \<lparr>createRoot = (\<lambda>c w. (Inr (ident_of c), w)),
      render_node = (\<lambda>r n w. (Inr (), w)),
      destroyRoot = (\<lambda>r w. if map ident_of (take 1 (body w)) = [r] then (Inr (), w)
                            else (Inl (Error ''root destroyed out of order''), w)),
      lifecycle_act = Act 0\<rparr>"

text \<open>Two calls of \<open>render\<close> on the empty host with that lifecycle.\<close>

definition rendered_twice ::
  "(error + ScreenLocator) \<times> (nat, unit) LifecycleDomScreen \<times> world" where
  "rendered_twice =
     (case render None \<lparr>lifecycle = oldest_first_lifecycle, cleanups = []\<rparr> () empty_world of
        (l, this, w) \<Rightarrow> render None this () w)"

text \<open>The host after one \<open>render\<close>, once the test has taken the container out of the body.\<close>

definition container_detached :: world where
  "container_detached = (snd (snd rendered_once))\<lparr>body := []\<rparr>"

text \<open>The recursive equations of the loops are unfolded by hand, one step at a time.\<close>

declare ws_tokens.simps [simp del] split.simps [simp del] waitForSuccess_loop.simps [simp del]
  search_from.simps [simp del]

section \<open>Properties of the match strategies\<close>

lemma set_Set_add: "set (Set_add r d) = insert d (set r)"
  by (auto simp: Set_add_def)

lemma set_foldl_cond_add:
  "set (foldl (\<lambda>results d. if P d then Set_add results d else results) r ds)
     = set r \<union> {d \<in> set ds. P d}"
  by (induction ds arbitrary: r) (auto simp: set_Set_add)

lemma set_foldl_add: "set (foldl Set_add r ds) = set r \<union> set ds"
  by (induction ds arbitrary: r) (auto simp: set_Set_add)

lemma set_matchDescendants_aux:
  "set (foldl (\<lambda>results e.
              foldl (\<lambda>results d. if P d then Set_add results d else results)
                results (descendants e)) r prev)
     = set r \<union> {d. \<exists>e\<in>set prev. d \<in> set (descendants e) \<and> P d}"
  by (induction prev arbitrary: r) (auto simp: set_foldl_cond_add)

text \<open>A callback without a state of its own leaves the state alone.\<close>

lemma foldl_stateless_callback:
  "foldl (\<lambda>(results, s) d. (if P d then Set_add results d else results, s)) (r, s0) ds
   = (foldl (\<lambda>results d. if P d then Set_add results d else results) r ds, s0)"
  by (induction ds arbitrary: r) simp_all

lemma matchDescendants_stateless:
  "matchDescendants prev (\<lambda>e s. (P e, s)) s0
   = (foldl (\<lambda>results e.
               foldl (\<lambda>results d. if P d then Set_add results d else results)
                 results (descendants e)) [] prev, s0)"
proof -
  have "foldl (\<lambda>acc e.
              foldl (\<lambda>(results, s) d. (if P d then Set_add results d else results, s))
                acc (descendants e)) (r, s0) prev
        = (foldl (\<lambda>results e.
               foldl (\<lambda>results d. if P d then Set_add results d else results)
                 results (descendants e)) r prev, s0)" for r
    by (induction prev arbitrary: r) (simp_all add: foldl_stateless_callback)
  then show ?thesis by (simp add: matchDescendants_def)
qed

lemma set_matchDescendants:
  "set (fst (matchDescendants prev (\<lambda>e s. (P e, s)) s0))
     = {d. \<exists>e\<in>set prev. d \<in> set (descendants e) \<and> P d}"
  by (simp add: matchDescendants_stateless set_matchDescendants_aux)

text \<open>Whatever the callback does with its state, what is found lies below a member.\<close>

lemma foldl_callback_subset:
  "set (fst (foldl (\<lambda>(results, s) d.
                      case f d s of (b, s') \<Rightarrow> (if b then Set_add results d else results, s'))
               (r, s0) ds)) \<subseteq> set r \<union> set ds"
proof (induction ds arbitrary: r s0)
  case Nil
  then show ?case by simp
next
  case (Cons d ds)
  obtain b s' where f: "f d s0 = (b, s')" by (cases "f d s0")
  show ?case
    using Cons.IH [of "if b then Set_add r d else r" s'] f
    by (auto simp: set_Set_add split: if_splits)
qed

lemma matchDescendants_subset:
  "set (fst (matchDescendants prev f s0)) \<subseteq> {d. \<exists>e\<in>set prev. d \<in> set (descendants e)}"
proof -
  have "set (fst (foldl (\<lambda>acc e.
              foldl (\<lambda>(results, s) d.
                       case f d s of
                         (b, s') \<Rightarrow> (if b then Set_add results d else results, s'))
                acc (descendants e)) (r, s) prev))
        \<subseteq> set r \<union> {d. \<exists>e\<in>set prev. d \<in> set (descendants e)}" for r s
  proof (induction prev arbitrary: r s)
    case Nil
    then show ?case by simp
  next
    case (Cons e es)
    obtain r1 s1 where step:
      "foldl (\<lambda>(results, s) d.
                case f d s of (b, s') \<Rightarrow> (if b then Set_add results d else results, s'))
         (r, s) (descendants e) = (r1, s1)"
      by (cases "foldl (\<lambda>(results, s) d.
                case f d s of (b, s') \<Rightarrow> (if b then Set_add results d else results, s'))
         (r, s) (descendants e)")
    from foldl_callback_subset [of f r s "descendants e"] step
    have "set r1 \<subseteq> set r \<union> set (descendants e)" by simp
    with Cons.IH [of r1 s1] step show ?case by auto
  qed
  from this [of "[]" s0] show ?thesis by (simp add: matchDescendants_def)
qed

lemma size_subtree: "d \<in> set (subtree n) \<Longrightarrow> size d \<le> size n"
proof (induction n arbitrary: d)
  case (Element p cs)
  then show ?case
  proof (cases "d = Element p cs")
    case True
    then show ?thesis by simp
  next
    case False
    with Element.prems obtain c where c: "c \<in> set cs" "d \<in> set (subtree c)" by auto
    then have "size d \<le> size c" using Element.IH by blast
    moreover have "size c \<le> size_list size cs" using c(1) by (simp add: size_list_estimation')
    ultimately show ?thesis by simp
  qed
qed simp_all

lemma size_descendants: "d \<in> set (descendants e) \<Longrightarrow> size d < size e"
proof (cases e)
  case (Element p cs)
  assume "d \<in> set (descendants e)"
  with Element obtain c where c: "c \<in> set cs" "d \<in> set (subtree c)"
    by (auto simp: descendants_def)
  then have "size d \<le> size c" by (rule_tac size_subtree)
  moreover have "size c \<le> size_list size cs" using c(1) by (simp add: size_list_estimation')
  ultimately show ?thesis using Element by simp
qed (auto simp: descendants_def)

lemma descendants_not_self: "d \<in> set (descendants e) \<Longrightarrow> d \<noteq> e"
  using size_descendants [of d e] by auto

lemma subtree_trans:
  "e \<in> set (subtree n) \<Longrightarrow> d \<in> set (subtree e) \<Longrightarrow> d \<in> set (subtree n)"
proof (induction n arbitrary: e)
  case (Element p cs)
  show ?case
  proof (cases "e = Element p cs")
    case True
    with Element.prems show ?thesis by simp
  next
    case False
    with Element.prems obtain c where c: "c \<in> set cs" "e \<in> set (subtree c)" by auto
    with Element.IH Element.prems(2) have "d \<in> set (subtree c)" by blast
    with c(1) show ?thesis by auto
  qed
qed simp_all

lemma descendants_subtree: "d \<in> set (descendants e) \<Longrightarrow> d \<in> set (subtree e)"
  by (cases e) (auto simp: descendants_def)

lemma descendants_trans:
  "d \<in> set (descendants e) \<Longrightarrow> e \<in> set (descendants r) \<Longrightarrow> d \<in> set (descendants r)"
proof -
  assume d: "d \<in> set (descendants e)" and e: "e \<in> set (descendants r)"
  from e obtain c where c: "c \<in> set (childNodes r)" "e \<in> set (subtree c)"
    by (auto simp: descendants_def)
  from d have "d \<in> set (subtree e)" by (rule descendants_subtree)
  with c(2) have "d \<in> set (subtree c)" by (rule subtree_trans)
  with c(1) show ?thesis by (auto simp: descendants_def)
qed

lemma strictly_below_matchDescendants: "strictly_below prev (fst (matchDescendants prev f s0))"
  using matchDescendants_subset [of prev f s0]
  by (auto simp: strictly_below_def dest: descendants_not_self)

lemma set_matchQuerySelector_loop:
  "matchQuerySelector_loop css sel r prev = Inr res \<Longrightarrow>
     set res \<subseteq> set r \<union> {d. \<exists>e\<in>set prev. d \<in> set (descendants e)}"
proof (induction prev arbitrary: r)
  case Nil
  then show ?case by auto
next
  case (Cons e es)
  from Cons.prems obtain m where m: "css sel = Some m"
    by (auto simp: querySelectorAll_def split: option.splits)
  with Cons.prems have
    "matchQuerySelector_loop css sel (foldl Set_add r (filter (m e) (descendants e))) es = Inr res"
    by (simp add: querySelectorAll_def)
  from Cons.IH [OF this] show ?case by (auto simp: set_foldl_add)
qed

lemma strictly_below_matchQuerySelector:
  "matchQuerySelector css prev sel = Inr res \<Longrightarrow> strictly_below prev res"
  using set_matchQuerySelector_loop [of css sel "[]" prev res]
  by (auto simp: strictly_below_def matchQuerySelector_def dest: descendants_not_self)

subsection \<open>Regular expressions and their position\<close>

lemma search_from_found:
  "search_from m sticky S i = Some e \<Longrightarrow> \<exists>j. i \<le> j \<and> j \<le> length S \<and> m S j = Some e"
proof (induction m sticky S i rule: search_from.induct)
  case (1 m sticky S i)
  show ?case
  proof (cases "m S i")
    case None
    with "1.prems" have le: "\<not> i > length S" and ns: "\<not> sticky"
      and rest: "search_from m sticky S (i + 1) = Some e"
      by (auto simp: search_from.simps [of m sticky S i] split: if_splits)
    from "1.IH" [OF le None ns rest] obtain j where
      j: "i + 1 \<le> j" "j \<le> length S" "m S j = Some e" by blast
    from j(1) have "i \<le> j" by simp
    with j(2,3) show ?thesis by blast
  next
    case (Some e')
    with "1.prems" have "i \<le> length S" "e' = e"
      by (auto simp: search_from.simps [of m sticky S i] split: if_splits)
    with Some show ?thesis by auto
  qed
qed

lemma search_from_start:
  "i \<le> j \<Longrightarrow> j \<le> length S \<Longrightarrow> m S j \<noteq> None \<Longrightarrow> search_from m False S i \<noteq> None"
proof (induction m "False" S i rule: search_from.induct)
  case (1 m S i)
  show ?case
  proof (cases "m S i")
    case None
    with "1.prems" have "i \<noteq> j" by auto
    with "1.prems" have le: "\<not> i > length S" and next_le: "i + 1 \<le> j" by auto
    from "1.hyps" [OF le None _ next_le "1.prems"(2,3)]
    have "search_from m False S (i + 1) \<noteq> None" by simp
    with le None show ?thesis by (simp add: search_from.simps [of m False S i])
  next
    case (Some e)
    with "1.prems" show ?thesis by (simp add: search_from.simps [of m False S i])
  qed
qed

lemma search_from_anywhere:
  "search_from m sticky S i = Some e \<Longrightarrow> search_from m False S 0 \<noteq> None"
proof -
  assume "search_from m sticky S i = Some e"
  then obtain j where "j \<le> length S" "m S j = Some e" by (auto dest: search_from_found)
  then show ?thesis using search_from_start [of 0 j S m] by simp
qed

lemma test_found:
  "test re S = (b, re') \<Longrightarrow>
     (\<exists>i. re' = re\<lparr>lastIndex := i\<rparr>) \<and> (b \<longrightarrow> search_from (matcher re) False S 0 \<noteq> None)"
proof -
  assume t: "test re S = (b, re')"
  let ?start = "if CHR ''g'' \<notin> set (flags re) \<and> CHR ''y'' \<notin> set (flags re) then 0
                else lastIndex re"
  have same: "re = re\<lparr>lastIndex := lastIndex re\<rparr>" by simp
  show ?thesis
  proof (cases "search_from (matcher re) (CHR ''y'' \<in> set (flags re)) S ?start")
    case None
    with t have "b = False" "re' = re\<lparr>lastIndex := 0\<rparr> \<or> re' = re"
      by (auto simp: test_def Let_def split: if_splits)
    with same show ?thesis by metis
  next
    case (Some e)
    with t have "re' = re\<lparr>lastIndex := e\<rparr> \<or> re' = re"
      by (auto simp: test_def Let_def split: if_splits)
    with same search_from_anywhere [OF Some] show ?thesis by metis
  qed
qed

lemma test_stateless:
  "CHR ''g'' \<notin> set (flags re) \<Longrightarrow> CHR ''y'' \<notin> set (flags re) \<Longrightarrow>
     test re S = (search_from (matcher re) False S 0 \<noteq> None, re)"
  by (cases "search_from (matcher re) False S 0") (simp_all add: test_def)

lemma isFound_found:
  "isFound (with_lastIndex q i) e = (b, q') \<Longrightarrow>
     (\<exists>j. q' = with_lastIndex q j) \<and> (b \<longrightarrow> own_text_matches q e)"
proof (cases q)
  case (IsString s)
  assume "isFound (with_lastIndex q i) e = (b, q')"
  with IsString show ?thesis by (auto simp: own_text_matches_def)
next
  case (IsRegExp re)
  assume h: "isFound (with_lastIndex q i) e = (b, q')"
  obtain re' where t: "test (re\<lparr>lastIndex := i\<rparr>) (getNormalizedText e) = (b, re')" "q' = IsRegExp re'"
    using h IsRegExp by (auto split: prod.splits)
  from test_found [OF t(1)] obtain j where
    "re' = re\<lparr>lastIndex := j\<rparr>" "b \<longrightarrow> search_from (matcher re) False (getNormalizedText e) 0 \<noteq> None"
    by auto
  with t(2) IsRegExp show ?thesis by (auto simp: own_text_matches_def)
qed

lemma isFound_stateless: "stateless q \<Longrightarrow> isFound q e = (own_text_matches q e, q)"
  by (cases q) (simp_all add: stateless_def own_text_matches_def test_stateless)

lemma with_lastIndex_same: "\<exists>i. q = with_lastIndex q i"
proof (cases q)
  case (IsString s)
  then show ?thesis by simp
next
  case (IsRegExp re)
  have "re = re\<lparr>lastIndex := lastIndex re\<rparr>" by simp
  with IsRegExp show ?thesis by (metis with_lastIndex.simps(2))
qed

lemma filterText_loop_found:
  "foldl (\<lambda>(results, s) e.
            case isFound s e of (b, s') \<Rightarrow> (if b then Set_add results e else results, s'))
     (r, with_lastIndex q i) es = (r', q') \<Longrightarrow>
   set r' \<subseteq> set r \<union> {e \<in> set es. own_text_matches q e} \<and> (\<exists>j. q' = with_lastIndex q j)"
proof (induction es arbitrary: r i)
  case Nil
  then show ?case by auto
next
  case (Cons e es)
  obtain b q1 where f: "isFound (with_lastIndex q i) e = (b, q1)"
    by (cases "isFound (with_lastIndex q i) e")
  from isFound_found [OF f] obtain j where
    j: "q1 = with_lastIndex q j" and m: "b \<longrightarrow> own_text_matches q e" by auto
  from Cons.prems f j have
    "foldl (\<lambda>(results, s) e.
              case isFound s e of (b, s') \<Rightarrow> (if b then Set_add results e else results, s'))
       (if b then Set_add r e else r, with_lastIndex q j) es = (r', q')"
    by simp
  from Cons.IH [OF this] m show ?case by (auto simp: set_Set_add split: if_splits)
qed

text \<open>\<open>filterText\<close> finds only members whose own text matches, whatever the flags and the
  position of the regular expression are; it finds all of them when no position is kept.\<close>

lemma set_filterText_subset:
  "set (fst (filterText prev q)) \<subseteq> {e \<in> set prev. own_text_matches q e}"
proof -
  obtain i where i: "q = with_lastIndex q i" using with_lastIndex_same by blast
  obtain r' q' where f: "filterText prev q = (r', q')" by (cases "filterText prev q")
  then have "foldl (\<lambda>(results, s) e.
            case isFound s e of (b, s') \<Rightarrow> (if b then Set_add results e else results, s'))
     ([], with_lastIndex q i) prev = (r', q')"
    using i by (simp add: filterText_def)
  from filterText_loop_found [OF this] f show ?thesis by simp
qed

lemma filterText_stateless:
  assumes "stateless q"
  shows "filterText prev q
         = (foldl (\<lambda>results e. if own_text_matches q e then Set_add results e else results)
              [] prev, q)"
proof -
  have "foldl (\<lambda>(results, s) e.
            case isFound s e of (b, s') \<Rightarrow> (if b then Set_add results e else results, s'))
          (r, q) es
        = (foldl (\<lambda>results e. if own_text_matches q e then Set_add results e else results)
              r es, q)" for r es
    by (induction es arbitrary: r) (simp_all add: isFound_stateless [OF assms])
  then show ?thesis by (simp add: filterText_def)
qed

lemma set_filterText:
  "stateless q \<Longrightarrow> set (fst (filterText prev q)) = {e \<in> set prev. own_text_matches q e}"
  by (simp add: filterText_stateless set_foldl_cond_add [where P = "own_text_matches q"])

subsection \<open>What a locator finds\<close>

lemma run_matchers_append:
  "run_matchers (ms @ [x]) found = and_then (run_matchers ms found) (match x)"
  by (induction ms arbitrary: found) (auto simp: and_then_def split: sum.splits)

lemma allElements_chainLocator:
  "allElements (chainLocator l d m) = and_then (allElements l) m"
  by (simp add: allElements_def chainLocator_def run_matchers_append)

lemma first_match_total: "first_match prev = Inr (take 1 prev)"
  by (cases prev) (simp_all add: first_match_def next_value_def)

lemma allElements_locateText:
  "allElements l = Inr prev \<Longrightarrow>
   allElements (locateText l q) =
     Inr (case q of IsString s \<Rightarrow> matchText prev s | IsRegExp re \<Rightarrow> fst (matchRegExp prev re))"
  by (cases q) (simp_all add: allElements_chainLocator and_then_def)

lemma allElements_locateRole:
  "allElements l = Inr prev \<Longrightarrow> allElements (locateRole l role) = Inr (matchRole prev role)"
  by (simp add: locateRole_def allElements_chainLocator and_then_def)

lemma allElements_filterText:
  "allElements l = Inr prev \<Longrightarrow>
   allElements (locator_filterText l q) = Inr (fst (filterText prev q))"
  by (simp add: locator_filterText_def allElements_chainLocator and_then_def)

lemma allElements_first:
  "allElements l = Inr prev \<Longrightarrow> allElements (first l) = Inr (take 1 prev)"
  by (simp add: first_def allElements_chainLocator and_then_def first_match_total)

lemma allElements_locate:
  "allElements l = Inr prev \<Longrightarrow> selector \<noteq> '''' \<Longrightarrow>
   allElements (locate css l selector) = matchQuerySelector css prev selector"
  by (simp add: locate_def allElements_chainLocator and_then_def)

lemma allElements_chain_Inr:
  "allElements (chainLocator l d m) = Inr res \<Longrightarrow> \<exists>prev. allElements l = Inr prev \<and> m prev = Inr res"
  by (auto simp: allElements_chainLocator and_then_def split: sum.splits)

text \<open>What a built locator finds is its root or lies below its root.\<close>

lemma built_within_root:
  "built css l \<Longrightarrow> allElements l = Inr found \<Longrightarrow>
     set found \<subseteq> insert (root l) (set (descendants (root l)))"
proof (induction arbitrary: found rule: built.induct)
  case (built_of a e)
  then show ?case by (auto simp: ScreenLocator_of_def allElements_def)
next
  case (built_locate l selector)
  show ?case
  proof (cases "selector = ''''")
    case True
    with built_locate show ?thesis by (simp add: locate_def)
  next
    case False
    with built_locate.prems obtain prev where
      p: "allElements l = Inr prev" "matchQuerySelector css prev selector = Inr found"
      by (auto simp: locate_def dest: allElements_chain_Inr)
    from p(2) have "strictly_below prev found" by (rule strictly_below_matchQuerySelector)
    moreover from built_locate.IH p(1)
    have "set prev \<subseteq> insert (root l) (set (descendants (root l)))" by blast
    ultimately have "set found \<subseteq> set (descendants (root l))"
      by (auto simp: strictly_below_def dest: descendants_trans)
    moreover from False have "root (locate css l selector) = root l"
      by (simp add: locate_def chainLocator_def)
    ultimately show ?thesis by auto
  qed
next
  case (built_filterText l s)
  from built_filterText.prems obtain prev where
    p: "allElements l = Inr prev" "found = fst (filterText prev s)"
    by (auto simp: locator_filterText_def dest: allElements_chain_Inr)
  with built_filterText.IH set_filterText_subset [of prev s] show ?case
    by (auto simp: locator_filterText_def chainLocator_def)
next
  case (built_locateRole l role)
  from built_locateRole.prems obtain prev where
    p: "allElements l = Inr prev" "found = matchRole prev role"
    by (auto simp: locateRole_def dest: allElements_chain_Inr)
  have "strictly_below prev found"
    unfolding p(2) matchRole_def by (rule strictly_below_matchDescendants)
  moreover from built_locateRole.IH p(1)
  have "set prev \<subseteq> insert (root l) (set (descendants (root l)))" by blast
  ultimately have "set found \<subseteq> set (descendants (root l))"
    by (auto simp: strictly_below_def dest: descendants_trans)
  then show ?case by (auto simp: locateRole_def chainLocator_def)
next
  case (built_locateText l s)
  from built_locateText.prems obtain prev where
    p: "allElements l = Inr prev"
       "found = (case s of IsString t \<Rightarrow> matchText prev t
                  | IsRegExp re \<Rightarrow> fst (matchRegExp prev re))"
    by (cases s) (auto dest: allElements_chain_Inr)
  have "strictly_below prev found"
    unfolding p(2) by (cases s) (simp_all add: matchText_def matchRegExp_def strictly_below_matchDescendants)
  moreover from built_locateText.IH p(1)
  have "set prev \<subseteq> insert (root l) (set (descendants (root l)))" by blast
  ultimately have "set found \<subseteq> set (descendants (root l))"
    by (auto simp: strictly_below_def dest: descendants_trans)
  then show ?case by (cases s) (auto simp: chainLocator_def)
next
  case (built_first l)
  from built_first.prems obtain prev where
    p: "allElements l = Inr prev" "found = take 1 prev"
    by (auto simp: first_def first_match_total dest: allElements_chain_Inr)
  with built_first.IH have "set found \<subseteq> insert (root l) (set (descendants (root l)))"
    by (auto dest: in_set_takeD)
  then show ?case by (simp add: first_def chainLocator_def)
qed

lemma below_root_excludes_root:
  assumes "built css l" and "allElements l = Inr prev" and "strictly_below prev res"
  shows "root l \<notin> set res"
proof
  assume "root l \<in> set res"
  with assms(3) obtain e where e: "e \<in> set prev" "root l \<in> set (descendants e)"
    by (auto simp: strictly_below_def)
  from built_within_root [OF assms(1,2)] e(1)
  have "e = root l \<or> e \<in> set (descendants (root l))" by auto
  then have "root l \<in> set (descendants (root l))"
    using e(2) by (auto dest: descendants_trans)
  then show False by (auto dest: descendants_not_self)
qed

subsection \<open>The step of first()\<close>

text \<open>
  C10. The step of \<open>first()\<close> is total and never raises: on the empty set it returns the empty
  set, on a set whose first member in traversal order is \<open>e\<close> it returns the set of \<open>e\<close> alone,
  and on no set does it return an error, so the branch that throws \<open>No elements found\<close> is
  never taken. \<open>first()\<close> appends exactly this step: the new locator finds the first of what
  the old one finds, and fails only where the old one fails.
\<close>

theorem first_never_raises:
  "first_match [] = Inr [] \<and> first_match (e # es) = Inr [e] \<and> first_match prev \<noteq> Inl err \<and>
   matchers (first l) = matchers l @ [\<lparr>description = ''first()'', match = first_match\<rparr>] \<and>
   allElements (first l) =
     (case allElements l of Inl err' \<Rightarrow> Inl err' | Inr found \<Rightarrow> Inr (take 1 found))"
proof (intro conjI)
  show "first_match [] = Inr []"
    by (simp add: first_match_def)
  show "first_match (e # es) = Inr [e]"
    by (simp add: first_match_def next_value_def)
  show "first_match prev \<noteq> Inl err"
  proof (cases prev)
    case Nil
    then show ?thesis by (simp add: first_match_def)
  next
    case (Cons x xs)
    then show ?thesis by (simp add: first_match_def next_value_def)
  qed
  show "matchers (first l) = matchers l @ [\<lparr>description = ''first()'', match = first_match\<rparr>]"
    by (simp add: first_def chainLocator_def)
  show "allElements (first l) =
     (case allElements l of Inl err' \<Rightarrow> Inl err' | Inr found \<Rightarrow> Inr (take 1 found))"
  proof (cases "allElements l")
    case (Inl err')
    then show ?thesis by (simp add: first_def allElements_chainLocator and_then_def)
  next
    case (Inr found)
    then show ?thesis by (simp add: allElements_first)
  qed
qed

subsection \<open>Descendant steps and filterText\<close>

text \<open>
  C1, as the code has it. Let \<open>prev\<close> be what a locator finds. Every node that
  \<open>locateText\<close>, \<open>locateRole\<close> or \<open>locate\<close> with a non-empty selector then finds lies
  strictly below some member of \<open>prev\<close>: it is a descendant of that member and not the member
  itself, whether or not the member meets the criterion. For a locator that the interface
  can build, the root of the locator is therefore never among the nodes found. (A member of
  \<open>prev\<close> that lies below another member can be found, and \<open>locate\<close> with the empty
  selector returns the locator as it is.) \<open>filterText\<close> tests the members of \<open>prev\<close>
  themselves: it finds nothing outside \<open>prev\<close> and only members whose own normalized text
  matches, and for a string or a regular expression without the flags \<open>g\<close> and \<open>y\<close> it finds
  exactly the members whose own normalized text matches. (With one of the two flags \<open>test\<close>
  starts where the call before it stopped, and a member whose text matches can be left
  out.)
\<close>

theorem descendant_steps_strictly_below:
  assumes "allElements l = Inr prev"
  shows "(\<exists>res. allElements (locateText l q) = Inr res \<and> strictly_below prev res \<and>
            (built css l \<longrightarrow> root l \<notin> set res)) \<and>
         (\<exists>res. allElements (locateRole l role) = Inr res \<and> strictly_below prev res \<and>
            (built css l \<longrightarrow> root l \<notin> set res)) \<and>
         (\<forall>res. selector \<noteq> '''' \<and> allElements (locate css l selector) = Inr res \<longrightarrow>
            strictly_below prev res \<and> (built css l \<longrightarrow> root l \<notin> set res)) \<and>
         (\<exists>res. allElements (locator_filterText l q) = Inr res \<and>
            set res \<subseteq> {e \<in> set prev. own_text_matches q e} \<and>
            (stateless q \<longrightarrow> set res = {e \<in> set prev. own_text_matches q e}))"
proof (intro conjI)
  let ?txt = "case q of IsString s \<Rightarrow> matchText prev s | IsRegExp re \<Rightarrow> fst (matchRegExp prev re)"
  have below_txt: "strictly_below prev ?txt"
    by (cases q) (simp_all add: matchText_def matchRegExp_def strictly_below_matchDescendants)
  show "\<exists>res. allElements (locateText l q) = Inr res \<and> strictly_below prev res \<and>
          (built css l \<longrightarrow> root l \<notin> set res)"
    using allElements_locateText [OF assms, of q] below_txt
      below_root_excludes_root [OF _ assms below_txt] by blast
  have below_role: "strictly_below prev (matchRole prev role)"
    by (simp add: matchRole_def strictly_below_matchDescendants)
  show "\<exists>res. allElements (locateRole l role) = Inr res \<and> strictly_below prev res \<and>
          (built css l \<longrightarrow> root l \<notin> set res)"
    using allElements_locateRole [OF assms, of role] below_role
      below_root_excludes_root [OF _ assms below_role] by blast
  show "\<forall>res. selector \<noteq> '''' \<and> allElements (locate css l selector) = Inr res \<longrightarrow>
          strictly_below prev res \<and> (built css l \<longrightarrow> root l \<notin> set res)"
  proof (intro allI impI)
    fix res
    assume h: "selector \<noteq> '''' \<and> allElements (locate css l selector) = Inr res"
    then have "matchQuerySelector css prev selector = Inr res"
      using allElements_locate [OF assms, of selector css] by simp
    then have b: "strictly_below prev res" by (rule strictly_below_matchQuerySelector)
    then show "strictly_below prev res \<and> (built css l \<longrightarrow> root l \<notin> set res)"
      using below_root_excludes_root [OF _ assms b] by blast
  qed
  show "\<exists>res. allElements (locator_filterText l q) = Inr res \<and>
          set res \<subseteq> {e \<in> set prev. own_text_matches q e} \<and>
          (stateless q \<longrightarrow> set res = {e \<in> set prev. own_text_matches q e})"
    using allElements_filterText [OF assms, of q] set_filterText_subset [of prev q]
      set_filterText [of q prev] by blast
qed

lemma alphaLoc_elements: "allElements alphaLoc = Inr [div_a, div_ab, div_abc, div_abcd]"
  by code_simp

lemma alphaLoc_built: "built type_selectors alphaLoc"
  unfolding alphaLoc_def by (intro built.intros)

text \<open>The theorem at the locator \<open>alphaLoc\<close> of the test \<open>filterText\<close>.\<close>

theorem descendant_steps_strictly_below_witness:
  "allElements alphaLoc = Inr [div_a, div_ab, div_abc, div_abcd] \<and>
   allElements (locateText alphaLoc (IsString ''bravo'')) = Inr [div_ab, div_abc, div_abcd] \<and>
   strictly_below [div_a, div_ab, div_abc, div_abcd] [div_ab, div_abc, div_abcd] \<and>
   filterText_screen \<notin> set [div_ab, div_abc, div_abcd] \<and>
   allElements (locate type_selectors alphaLoc ''div'') = Inr [div_ab, div_abc, div_abcd] \<and>
   allElements (locator_filterText alphaLoc (IsString ''bravo'')) = Inr [div_ab, div_abc, div_abcd] \<and>
   stateless (IsString ''bravo'') \<and>
   set [div_ab, div_abc, div_abcd] =
     {e \<in> set [div_a, div_ab, div_abc, div_abcd]. own_text_matches (IsString ''bravo'') e}"
proof -
  note t = descendant_steps_strictly_below [OF alphaLoc_elements,
      of "IsString ''bravo''" type_selectors "''x''" "''div''"]
  have r1: "allElements (locateText alphaLoc (IsString ''bravo'')) = Inr [div_ab, div_abc, div_abcd]"
    by code_simp
  have r2: "allElements (locate type_selectors alphaLoc ''div'') = Inr [div_ab, div_abc, div_abcd]"
    by code_simp
  have r3: "allElements (locator_filterText alphaLoc (IsString ''bravo'')) = Inr [div_ab, div_abc, div_abcd]"
    by code_simp
  have st: "stateless (IsString ''bravo'')"
    by (simp add: stateless_def)
  have root: "root alphaLoc = filterText_screen"
    by (simp add: alphaLoc_def chainLocator_def ScreenLocator_of_def)
  from t r1 have "strictly_below [div_a, div_ab, div_abc, div_abcd] [div_ab, div_abc, div_abcd]"
    by auto
  moreover from t r1 alphaLoc_built root have "filterText_screen \<notin> set [div_ab, div_abc, div_abcd]"
    by auto
  moreover from t r3 st have "set [div_ab, div_abc, div_abcd] =
     {e \<in> set [div_a, div_ab, div_abc, div_abcd]. own_text_matches (IsString ''bravo'') e}"
    by auto
  ultimately show ?thesis using alphaLoc_elements r1 r2 r3 st by blast
qed

text \<open>
  The same test shows that a descendant step can find a member of the current set:
  \<open>alphaLoc\<close> finds the four \<open>div\<close> elements, and \<open>alphaLoc.locateText('delta')\<close> finds the
  innermost of them, which lies below the outermost. And \<open>locate('')\<close> on the zero-step
  locator finds the root itself. On the same four elements, whose own texts all contain
  \<open>alpha\<close>, \<open>filterText(/alpha/g)\<close> finds the first and the third only: the test of the
  second and of the fourth starts at index 5, where the match before it ended.
\<close>

theorem member_of_current_set_in_result:
  "allElements alphaLoc = Inr [div_a, div_ab, div_abc, div_abcd] \<and>
   allElements (locateText alphaLoc (IsString ''delta'')) = Inr [div_abcd] \<and>
   div_abcd \<in> set [div_a, div_ab, div_abc, div_abcd] \<and>
   allElements (ScreenLocator_of (Act 0) filterText_screen) = Inr [filterText_screen] \<and>
   allElements (locate type_selectors (ScreenLocator_of (Act 0) filterText_screen) '''')
     = Inr [filterText_screen] \<and>
   allElements (locator_filterText alphaLoc (IsRegExp alpha_global)) = Inr [div_a, div_abc] \<and>
   own_text_matches (IsRegExp alpha_global) div_ab \<and>
   own_text_matches (IsRegExp alpha_global) div_abcd"
  by (intro conjI; code_simp)

section \<open>Own text, roles and chaining\<close>

lemma isWhiteSpace_space [simp]: "isWhiteSpace CHR '' ''"
  by (simp add: isWhiteSpace_def)

lemma replace_ws_runs_prefix:
  "(\<And>x. x \<in> set p \<Longrightarrow> \<not> isWhiteSpace x) \<Longrightarrow> replace_ws_runs (p @ r) = p @ replace_ws_runs r"
  by (induction p) auto

lemma replace_ws_runs_head:
  "t = [] \<or> \<not> isWhiteSpace (hd t) \<Longrightarrow> dropWhile isWhiteSpace (replace_ws_runs t) = replace_ws_runs t"
  by (cases t) auto

lemma dropWhile_head: "dropWhile P s = [] \<or> \<not> P (hd (dropWhile P s))"
  using hd_dropWhile [of P s] by blast

lemma dropWhile_replace_ws_runs:
  "dropWhile isWhiteSpace (replace_ws_runs s) = replace_ws_runs (dropWhile isWhiteSpace s)"
proof (cases s)
  case Nil
  then show ?thesis by simp
next
  case (Cons c cs)
  show ?thesis
  proof (cases "isWhiteSpace c")
    case True
    with Cons show ?thesis
      using replace_ws_runs_head [OF dropWhile_head [of isWhiteSpace cs]] by simp
  next
    case False
    with Cons show ?thesis by simp
  qed
qed

lemma ws_tokens_dropWhile: "ws_tokens (dropWhile isWhiteSpace s) = ws_tokens s"
  by (subst ws_tokens.simps, subst (2) ws_tokens.simps) simp

lemma ws_tokens_Cons:
  "\<not> isWhiteSpace c \<Longrightarrow>
   ws_tokens (c # cs) =
     (c # takeWhile (\<lambda>x. \<not> isWhiteSpace x) cs) # ws_tokens (dropWhile (\<lambda>x. \<not> isWhiteSpace x) cs)"
  by (subst ws_tokens.simps) simp

lemma ws_tokens_Nil [simp]: "ws_tokens [] = []"
  by (subst ws_tokens.simps) simp

lemma strip_trailing_append:
  "rev (dropWhile P (rev x)) \<noteq> [] \<Longrightarrow>
   rev (dropWhile P (rev (a @ x))) = a @ rev (dropWhile P (rev x))"
proof -
  assume "rev (dropWhile P (rev x)) \<noteq> []"
  then obtain y where "y \<in> set (rev x)" "\<not> P y" by auto
  then show ?thesis by simp
qed

lemma strip_trailing_id:
  "(\<And>x. x \<in> set t \<Longrightarrow> \<not> P x) \<Longrightarrow> rev (dropWhile P (rev t)) = t"
  by (cases "rev t") auto

lemma join_Cons: "ps \<noteq> [] \<Longrightarrow> join (p # ps) sep = p @ sep @ join ps sep"
  by (cases ps) simp_all

lemma join_nonempty: "ps \<noteq> [] \<Longrightarrow> hd ps \<noteq> [] \<Longrightarrow> join ps sep \<noteq> []"
proof -
  assume "ps \<noteq> []" and "hd ps \<noteq> []"
  then obtain p qs where "ps = p # qs" "p \<noteq> []" by (cases ps) auto
  then show ?thesis by (cases qs) auto
qed

lemma strip_trailing_replace_ws_runs:
  "t = [] \<or> \<not> isWhiteSpace (hd t) \<Longrightarrow>
   rev (dropWhile isWhiteSpace (rev (replace_ws_runs t))) = join (ws_tokens t) '' ''"
proof (induction t rule: length_induct)
  case (1 t)
  show ?case
  proof (cases t)
    case Nil
    then show ?thesis by simp
  next
    case (Cons c cs)
    with "1.prems" have c: "\<not> isWhiteSpace c" by simp
    let ?tok = "c # takeWhile (\<lambda>x. \<not> isWhiteSpace x) cs"
    let ?rest = "dropWhile (\<lambda>x. \<not> isWhiteSpace x) cs"
    have t: "t = ?tok @ ?rest" using Cons by simp
    have tok: "\<And>x. x \<in> set ?tok \<Longrightarrow> \<not> isWhiteSpace x"
      using c by (auto dest: set_takeWhileD)
    have rep: "replace_ws_runs t = ?tok @ replace_ws_runs ?rest"
      by (subst t) (rule replace_ws_runs_prefix [OF tok])
    have toks: "ws_tokens t = ?tok # ws_tokens ?rest"
      using Cons c by (simp add: ws_tokens_Cons)
    show ?thesis
    proof (cases ?rest)
      case Nil
      have r: "replace_ws_runs t = ?tok"
        by (simp only: rep Nil replace_ws_runs.simps append_Nil2)
      have k: "ws_tokens t = [?tok]"
        by (simp only: toks Nil ws_tokens_Nil)
      show ?thesis
        unfolding r k using strip_trailing_id [of ?tok isWhiteSpace, OF tok] by simp
    next
      case (Cons w r)
      have w: "isWhiteSpace w"
        using hd_dropWhile [of "\<lambda>x. \<not> isWhiteSpace x" cs] Cons by simp
      let ?t' = "dropWhile isWhiteSpace r"
      have rest': "replace_ws_runs ?rest = CHR '' '' # replace_ws_runs ?t'"
        using Cons w by simp
      have toks': "ws_tokens ?rest = ws_tokens ?t'"
        using ws_tokens_dropWhile [of ?rest] Cons w by simp
      have len: "length ?t' < length t"
      proof -
        have "length ?t' \<le> length r" by (rule length_dropWhile_le)
        moreover have "length (w # r) \<le> length cs"
          using length_dropWhile_le [of "\<lambda>x. \<not> isWhiteSpace x" cs] Cons by simp
        ultimately show ?thesis using \<open>t = c # cs\<close> by simp
      qed
      have head: "?t' = [] \<or> \<not> isWhiteSpace (hd ?t')" by (rule dropWhile_head)
      from "1.IH" len head
      have IH: "rev (dropWhile isWhiteSpace (rev (replace_ws_runs ?t'))) = join (ws_tokens ?t') '' ''"
        by blast
      show ?thesis
      proof (cases ?t')
        case Nil
        have r: "replace_ws_runs t = ?tok @ '' ''"
          by (simp only: rep rest' Nil replace_ws_runs.simps)
        have k: "ws_tokens t = [?tok]"
          by (simp only: toks toks' Nil ws_tokens_Nil)
        have "rev (dropWhile isWhiteSpace (rev (?tok @ '' ''))) = ?tok"
          using strip_trailing_id [of ?tok isWhiteSpace, OF tok] by simp
        then show ?thesis unfolding r k by simp
      next
        case (Cons d ds)
        then have d: "\<not> isWhiteSpace d" using head by simp
        have ne: "ws_tokens ?t' \<noteq> []" "hd (ws_tokens ?t') \<noteq> []"
          using Cons d by (simp_all add: ws_tokens_Cons)
        then have J: "join (ws_tokens ?t') '' '' \<noteq> []" by (rule join_nonempty)
        have "replace_ws_runs t = (?tok @ '' '') @ replace_ws_runs ?t'"
          using rep rest' by simp
        then have "rev (dropWhile isWhiteSpace (rev (replace_ws_runs t)))
            = (?tok @ '' '') @ join (ws_tokens ?t') '' ''"
          using strip_trailing_append [of isWhiteSpace "replace_ws_runs ?t'" "?tok @ '' ''"] IH J
          by simp
        also have "\<dots> = join (ws_tokens t) '' ''"
          using toks toks' ne(1) by (simp add: join_Cons)
        finally show ?thesis .
      qed
    qed
  qed
qed

lemma normalizeWhitespace_tokens: "normalizeWhitespace s = spec_collapse_and_trim s"
proof -
  have "normalizeWhitespace s
      = rev (dropWhile isWhiteSpace (rev (replace_ws_runs (dropWhile isWhiteSpace s))))"
    by (simp add: normalizeWhitespace_def trim_def dropWhile_replace_ws_runs)
  also have "\<dots> = join (ws_tokens (dropWhile isWhiteSpace s)) '' ''"
    by (rule strip_trailing_replace_ws_runs) (rule dropWhile_head)
  finally show ?thesis by (simp add: spec_collapse_and_trim_def ws_tokens_dropWhile)
qed

lemma text_of_children_concat:
  "text_of_children cs = concat (map (\<lambda>c. case c of Text s \<Rightarrow> s | _ \<Rightarrow> []) cs)"
  by (induction cs rule: text_of_children.induct) simp_all

lemma text_of_children_comprehension: "text_of_children cs = concat [s. Text s \<leftarrow> cs]"
  by (induction cs rule: text_of_children.induct) simp_all

text \<open>
  C5. The own text of an element whose tag name is \<open>INPUT\<close> or \<open>TEXTAREA\<close> is the current
  value of the control. The own text of every other element is made of the data of its
  direct text-node children alone, appended in order (nothing below a child element and no
  comment contributes), with every run of whitespace collapsed to one space and both ends
  trimmed: it is the whitespace-separated tokens of that text with one space between
  neighbours. In particular an element whose direct text is two spaces, \<open>a\<close>, a line feed,
  a space, \<open>b\<close> and two spaces has the own text \<open>a b\<close>.
\<close>

theorem own_text_extraction:
  "(tagName p = ''INPUT'' \<or> tagName p = ''TEXTAREA'' \<longrightarrow>
      getNormalizedText (Element p cs) = val p) \<and>
   (tagName p \<noteq> ''INPUT'' \<and> tagName p \<noteq> ''TEXTAREA'' \<longrightarrow>
      getNormalizedText (Element p cs) = spec_collapse_and_trim (concat [s. Text s \<leftarrow> cs])) \<and>
   (tagName p \<noteq> ''INPUT'' \<and> tagName p \<noteq> ''TEXTAREA'' \<and>
    concat [s. Text s \<leftarrow> cs] = ''  a'' @ nl @ '' b  '' \<longrightarrow>
      getNormalizedText (Element p cs) = ''a b'')"
proof -
  have ex: "spec_collapse_and_trim (''  a'' @ nl @ '' b  '') = ''a b''"
    by code_simp
  have gen: "getNormalizedText (Element p cs) = spec_collapse_and_trim (concat [s. Text s \<leftarrow> cs])"
    if "tagName p \<noteq> ''INPUT'' \<and> tagName p \<noteq> ''TEXTAREA''"
    using that by (simp add: normalizeWhitespace_tokens text_of_children_comprehension)
  have "getNormalizedText (Element p cs) = ''a b''"
    if "tagName p \<noteq> ''INPUT'' \<and> tagName p \<noteq> ''TEXTAREA'' \<and>
        concat [s. Text s \<leftarrow> cs] = ''  a'' @ nl @ '' b  ''"
  proof -
    from that have "getNormalizedText (Element p cs)
        = spec_collapse_and_trim (concat [s. Text s \<leftarrow> cs])" by (intro gen) simp
    also from that have "\<dots> = spec_collapse_and_trim (''  a'' @ nl @ '' b  '')"
      by (simp only:)
    finally show ?thesis by (simp only: ex)
  qed
  moreover have "tagName p = ''INPUT'' \<or> tagName p = ''TEXTAREA'' \<longrightarrow>
      getNormalizedText (Element p cs) = val p" by auto
  ultimately show ?thesis using gen by blast
qed

text \<open>The theorem at a \<open>div\<close> with two text children around an element and a comment, and
  at an input whose value keeps its spaces.\<close>

theorem own_text_extraction_witness:
  "getNormalizedText
     (Element \<lparr>ident = 1, tagName = ''DIV'', iface = HTMLElement, attributes = [], val = '''',
               directSetter = None, prototypeSetter = None, ownerDocument = localhost\<rparr>
        [Text ''  a'', html_element 2 ''B'' [] [Text ''nested''], Comment ''c'', Text (nl @ '' b  '')])
     = ''a b'' \<and>
   getNormalizedText
     (Element \<lparr>ident = 3, tagName = ''INPUT'', iface = HTMLInputElement, attributes = [],
               val = '' x  y '', directSetter = None, prototypeSetter = Some 0,
               ownerDocument = localhost\<rparr> [])
     = '' x  y ''"
proof -
  let ?p = "\<lparr>ident = 1, tagName = ''DIV'', iface = HTMLElement, attributes = [], val = '''',
            directSetter = None, prototypeSetter = None, ownerDocument = localhost\<rparr>"
  let ?cs = "[Text ''  a'', html_element 2 ''B'' [] [Text ''nested''], Comment ''c'',
              Text (nl @ '' b  '')]"
  let ?q = "\<lparr>ident = 3, tagName = ''INPUT'', iface = HTMLInputElement, attributes = [],
            val = '' x  y '', directSetter = None, prototypeSetter = Some 0,
            ownerDocument = localhost\<rparr>"
  have h: "tagName ?p \<noteq> ''INPUT'' \<and> tagName ?p \<noteq> ''TEXTAREA'' \<and>
           concat [s. Text s \<leftarrow> ?cs] = ''  a'' @ nl @ '' b  ''"
    by (simp add: html_element_def)
  from own_text_extraction [of ?p ?cs] h
  have a: "getNormalizedText (Element ?p ?cs) = ''a b''" by blast
  have "tagName ?q = ''INPUT'' \<or> tagName ?q = ''TEXTAREA''" by simp
  with own_text_extraction [of ?q "[]"]
  have b: "getNormalizedText (Element ?q []) = val ?q" by blast
  from a b show ?thesis by simp
qed

lemma trim_id: "(\<And>x. x \<in> set p \<Longrightarrow> \<not> isWhiteSpace x) \<Longrightarrow> trim p = p"
proof -
  assume h: "\<And>x. x \<in> set p \<Longrightarrow> \<not> isWhiteSpace x"
  then have "dropWhile isWhiteSpace p = p" by (cases p) auto
  then show ?thesis using strip_trailing_id [of p isWhiteSpace] h by (simp add: trim_def)
qed

lemma ws_tokens_all_nonws:
  "(\<And>x. x \<in> set p \<Longrightarrow> \<not> isWhiteSpace x) \<Longrightarrow> ws_tokens p = (if p = [] then [] else [p])"
proof (cases p)
  case Nil
  then show ?thesis by simp
next
  case (Cons c cs)
  assume h: "\<And>x. x \<in> set p \<Longrightarrow> \<not> isWhiteSpace x"
  with Cons have c: "\<not> isWhiteSpace c" and cs: "\<forall>x\<in>set cs. \<not> isWhiteSpace x" by auto
  from cs have t: "takeWhile (\<lambda>x. \<not> isWhiteSpace x) cs = cs"
    and d: "dropWhile (\<lambda>x. \<not> isWhiteSpace x) cs = []"
    by simp_all
  show ?thesis unfolding Cons ws_tokens_Cons [OF c] t d by simp
qed

lemma ws_tokens_ws_Cons: "isWhiteSpace w \<Longrightarrow> ws_tokens (w # r) = ws_tokens r"
  using ws_tokens_dropWhile [of "w # r"] ws_tokens_dropWhile [of r] by simp

lemma ws_tokens_sep:
  assumes p: "\<And>x. x \<in> set p \<Longrightarrow> \<not> isWhiteSpace x" and w: "isWhiteSpace w"
  shows "ws_tokens (p @ w # r) = (if p = [] then ws_tokens r else p # ws_tokens r)"
proof (cases p)
  case Nil
  with w show ?thesis by (simp add: ws_tokens_ws_Cons)
next
  case (Cons c cs)
  with p have c: "\<not> isWhiteSpace c" and cs: "\<And>x. x \<in> set cs \<Longrightarrow> \<not> isWhiteSpace x" by auto
  have "takeWhile (\<lambda>x. \<not> isWhiteSpace x) (cs @ w # r) = cs"
    using cs w by (simp add: takeWhile_tail)
  moreover have "dropWhile (\<lambda>x. \<not> isWhiteSpace x) (cs @ w # r) = w # r"
    using cs w by simp
  ultimately show ?thesis
    using Cons c w by (simp add: ws_tokens_Cons ws_tokens_ws_Cons)
qed

lemma split_pieces_tokens:
  "(\<And>c. c \<in> set s \<Longrightarrow> isWhiteSpace c \<Longrightarrow> c = CHR '' '') \<Longrightarrow>
   set (map trim (split s CHR '' '')) - {[]} = set (ws_tokens s)"
proof (induction s rule: length_induct)
  case (1 s)
  let ?P = "\<lambda>c. c \<noteq> CHR '' ''"
  let ?p = "takeWhile ?P s"
  have nonws: "\<And>x. x \<in> set ?p \<Longrightarrow> \<not> isWhiteSpace x"
  proof -
    fix x assume "x \<in> set ?p"
    then have "x \<in> set s" "x \<noteq> CHR '' ''" by (auto dest: set_takeWhileD)
    with "1.prems" show "\<not> isWhiteSpace x" by blast
  qed
  show ?case
  proof (cases "dropWhile ?P s")
    case Nil
    then have sp: "split s CHR '' '' = [s]" by (subst split.simps) (simp only: list.case)
    from Nil have "?p = s" using takeWhile_dropWhile_id [of ?P s] by (simp only: append_Nil2)
    with nonws have n: "\<And>x. x \<in> set s \<Longrightarrow> \<not> isWhiteSpace x" by simp
    show ?thesis
      unfolding sp using trim_id [of s, OF n] ws_tokens_all_nonws [of s, OF n] by auto
  next
    case (Cons x rest)
    then have sp: "split s CHR '' '' = ?p # split rest CHR '' ''"
      by (subst split.simps) (simp only: list.case)
    have x: "x = CHR '' ''"
      using hd_dropWhile [of ?P s] Cons by simp
    have s: "s = ?p @ CHR '' '' # rest"
      using takeWhile_dropWhile_id [of ?P s] Cons x by simp
    have len: "length rest < length s"
      using arg_cong [OF s, of length] by simp
    have "\<And>c. c \<in> set rest \<Longrightarrow> isWhiteSpace c \<Longrightarrow> c = CHR '' ''"
    proof -
      fix c assume "c \<in> set rest" "isWhiteSpace c"
      moreover from this have "c \<in> set s" by (subst s) simp
      ultimately show "c = CHR '' ''" using "1.prems" by blast
    qed
    with "1.IH" len
    have IH: "set (map trim (split rest CHR '' '')) - {[]} = set (ws_tokens rest)" by blast
    have tk: "ws_tokens s = (if ?p = [] then ws_tokens rest else ?p # ws_tokens rest)"
      by (subst s) (rule ws_tokens_sep [OF nonws], simp_all)
    have "set (map trim (split s CHR '' '')) - {[]}
        = ({?p} - {[]}) \<union> (set (map trim (split rest CHR '' '')) - {[]})"
      unfolding sp using trim_id [of ?p, OF nonws] by auto
    also have "\<dots> = set (ws_tokens s)"
      unfolding IH tk by auto
    finally show ?thesis .
  qed
qed

lemma set_matchRole:
  "set (matchRole prev role) = {d. (\<exists>e\<in>set prev. d \<in> set (descendants e)) \<and> hasRole d role}"
  by (auto simp: matchRole_def set_matchDescendants)

text \<open>
  C6, as the code has it. An element matches a role exactly when the role equals the
  trimmed form of one of the pieces that splitting the role attribute at every single space
  yields, an absent attribute being the empty string (whose one piece is empty). For a
  non-empty role and an attribute whose only whitespace is the space character, that is the
  case exactly when the role is one of the whitespace-separated tokens of the attribute.
  \<open>locateRole(role)\<close> finds exactly the nodes below a member of the current set that match
  in this sense.
\<close>

theorem role_match_space_separated:
  "(hasRole e role \<longleftrightarrow>
      (\<exists>piece\<in>set (split (case getAttribute e ''role'' of None \<Rightarrow> [] | Some a \<Rightarrow> a) CHR '' '').
         trim piece = role)) \<and>
   (role \<noteq> [] \<and>
    (\<forall>c\<in>set (case getAttribute e ''role'' of None \<Rightarrow> [] | Some a \<Rightarrow> a).
       isWhiteSpace c \<longrightarrow> c = CHR '' '') \<longrightarrow>
      (hasRole e role \<longleftrightarrow> spec_hasRole e role)) \<and>
   (allElements l = Inr prev \<longrightarrow>
      (\<exists>res. allElements (locateRole l role) = Inr res \<and>
         set res = {d. (\<exists>e\<in>set prev. d \<in> set (descendants e)) \<and> hasRole d role}))"
proof (intro conjI impI)
  let ?attr = "case getAttribute e ''role'' of None \<Rightarrow> [] | Some a \<Rightarrow> a"
  show "hasRole e role \<longleftrightarrow> (\<exists>piece\<in>set (split ?attr CHR '' ''). trim piece = role)"
    by (auto simp: hasRole_def Let_def)
  show "\<exists>res. allElements (locateRole l role) = Inr res \<and>
         set res = {d. (\<exists>e\<in>set prev. d \<in> set (descendants e)) \<and> hasRole d role}"
    if "allElements l = Inr prev"
    using allElements_locateRole [OF that, of role] set_matchRole [of prev role] by simp
  show "hasRole e role \<longleftrightarrow> spec_hasRole e role"
    if h: "role \<noteq> [] \<and> (\<forall>c\<in>set ?attr. isWhiteSpace c \<longrightarrow> c = CHR '' '')"
  proof -
    from h have eq: "set (map trim (split ?attr CHR '' '')) - {[]} = set (ws_tokens ?attr)"
      using split_pieces_tokens [of ?attr] by blast
    have "hasRole e role \<longleftrightarrow> role \<in> set (map trim (split ?attr CHR '' '')) - {[]}"
      using h by (auto simp: hasRole_def Let_def)
    also have "\<dots> \<longleftrightarrow> role \<in> set (ws_tokens ?attr)" using eq by simp
    also have "\<dots> \<longleftrightarrow> spec_hasRole e role"
      by (cases "getAttribute e ''role''") (simp_all add: spec_hasRole_def)
    finally show ?thesis .
  qed
qed

text \<open>The theorem at an element with two roles and two spaces between them.\<close>

theorem role_match_space_separated_witness:
  "hasRole two_roles ''checkbox'' \<and> spec_hasRole two_roles ''checkbox'' \<and>
   \<not> hasRole two_roles ''check'' \<and> \<not> spec_hasRole two_roles ''check''"
proof -
  have attr: "(case getAttribute two_roles ''role'' of None \<Rightarrow> [] | Some a \<Rightarrow> a) = ''switch  checkbox''"
    by (simp add: two_roles_def html_element_def)
  have only_spaces: "\<forall>c\<in>set ''switch  checkbox''. isWhiteSpace c \<longrightarrow> c = CHR '' ''"
    by (simp add: isWhiteSpace_def)
  have a: "hasRole two_roles ''checkbox''" by code_simp
  have b: "\<not> hasRole two_roles ''check''" by code_simp
  from role_match_space_separated [of two_roles "''checkbox''" screenLoc "[]"] attr only_spaces a
  have "spec_hasRole two_roles ''checkbox''" by simp
  moreover
  from role_match_space_separated [of two_roles "''check''" screenLoc "[]"] attr only_spaces b
  have "\<not> spec_hasRole two_roles ''check''" by simp
  ultimately show ?thesis using a b by blast
qed

text \<open>
  With a tab between the tokens of the attribute, \<open>switch\<close> is a whitespace-separated token
  and the element does not match it; and an element without the attribute matches the
  empty role, which is no token.
\<close>

theorem role_match_not_whitespace_tokens:
  "spec_hasRole tab_roles ''switch'' \<and> \<not> hasRole tab_roles ''switch'' \<and>
   hasRole no_role '''' \<and> \<not> spec_hasRole no_role ''''"
  by (intro conjI; code_simp)

lemma extends_by_one_chainLocator: "extends_by_one l (chainLocator l d m)"
  by (simp add: extends_by_one_def chainLocator_def)

lemma returns_new_chainLocator_ref:
  "this < length h \<Longrightarrow> returns_new h this (chainLocator_ref h this d m)"
  using extends_by_one_chainLocator [of "h ! this" d m]
  by (simp add: returns_new_def chainLocator_ref_def new_ScreenLocator_def chainLocator_def
      nth_append)

lemma chainLocator_ref_value:
  "chainLocator_ref h this d m = (h @ [chainLocator (h ! this) d m], length h)"
  by (simp add: chainLocator_ref_def new_ScreenLocator_def chainLocator_def)

text \<open>
  C3, as the code has it. For every locator object and every chaining method but
  \<open>locate\<close> with the empty selector, the call changes no object of the store: it returns a
  reference that was free, behind it the receiver with one step appended (same root, same
  runner), and the receiver finds what it found before the call. \<open>locate('')\<close> returns the
  receiver itself and leaves the store as it is. The object a method returns has the value
  that the method of the same name on values computes.
\<close>

theorem chaining_returns_new_locator:
  assumes "this < length h"
  shows "returns_new h this (locateText_ref h this q) \<and>
         returns_new h this (locateRole_ref h this role) \<and>
         returns_new h this (filterText_ref h this q) \<and>
         returns_new h this (first_ref h this) \<and>
         (selector \<noteq> '''' \<longrightarrow> returns_new h this (locate_ref css h this selector)) \<and>
         locate_ref css h this '''' = (h, this) \<and>
         locateText_ref h this q = (h @ [locateText (h ! this) q], length h) \<and>
         locateRole_ref h this role = (h @ [locateRole (h ! this) role], length h) \<and>
         filterText_ref h this q = (h @ [locator_filterText (h ! this) q], length h) \<and>
         first_ref h this = (h @ [first (h ! this)], length h) \<and>
         (selector \<noteq> '''' \<longrightarrow>
            locate_ref css h this selector = (h @ [locate css (h ! this) selector], length h))"
proof -
  have "returns_new h this (locateText_ref h this q)"
    by (cases q) (simp_all add: returns_new_chainLocator_ref [OF assms])
  moreover have "locateText_ref h this q = (h @ [locateText (h ! this) q], length h)"
    by (cases q) (simp_all add: chainLocator_ref_value)
  ultimately show ?thesis
    using returns_new_chainLocator_ref [OF assms]
    by (simp add: locateRole_ref_def filterText_ref_def first_ref_def locate_ref_def
        chainLocator_ref_value locateRole_def locator_filterText_def first_def locate_def)
qed

text \<open>The theorem at a store that holds the zero-step locator of the test \<open>filterText\<close>.\<close>

theorem chaining_returns_new_locator_witness:
  "(0::nat) < length [screenLoc] \<and>
   returns_new [screenLoc] 0 (locate_ref type_selectors [screenLoc] 0 ''div'') \<and>
   locate_ref type_selectors [screenLoc] 0 ''div''
     = ([screenLoc, locate type_selectors screenLoc ''div''], 1) \<and>
   returns_new [screenLoc] 0 (first_ref [screenLoc] 0) \<and>
   allElements (fst (first_ref [screenLoc] 0) ! 0) = Inr [filterText_screen]"
proof -
  have h: "(0::nat) < length [screenLoc]" by simp
  note t = chaining_returns_new_locator [OF h, of "IsString ''x''" "''r''" "''div''" type_selectors]
  have e: "allElements screenLoc = Inr [filterText_screen]"
    by (simp add: screenLoc_def ScreenLocator_of_def allElements_def)
  have ne: "''div'' \<noteq> ''''" by simp
  from t ne have a: "returns_new [screenLoc] 0 (locate_ref type_selectors [screenLoc] 0 ''div'')"
    by blast
  from t ne have "locate_ref type_selectors [screenLoc] 0 ''div''
     = ([screenLoc] @ [locate type_selectors ([screenLoc] ! 0) ''div''], length [screenLoc])"
    by blast
  then have b: "locate_ref type_selectors [screenLoc] 0 ''div''
     = ([screenLoc, locate type_selectors screenLoc ''div''], 1)"
    by simp
  from t have c: "returns_new [screenLoc] 0 (first_ref [screenLoc] 0)"
    by blast
  from c e have d: "allElements (fst (first_ref [screenLoc] 0) ! 0) = Inr [filterText_screen]"
    by (simp add: returns_new_def split: prod.splits)
  from h a b c d show ?thesis by blast
qed

text \<open>\<open>locate('')\<close> returns the receiver's own reference: no new locator, and no step
  appended.\<close>

theorem locate_empty_selector_returns_this:
  "locate_ref type_selectors [screenLoc] 0 '''' = ([screenLoc], 0) \<and>
   \<not> returns_new [screenLoc] 0 (locate_ref type_selectors [screenLoc] 0 '''') \<and>
   matchers (fst (locate_ref type_selectors [screenLoc] 0 '''') !
             snd (locate_ref type_selectors [screenLoc] 0 '''')) = matchers screenLoc"
  by (simp add: locate_ref_def returns_new_def)

section \<open>Accessors and matchers\<close>

lemma accessor_failures:
  assumes "allElements l = Inr elems" and "length elems \<noteq> 1"
  shows "\<exists>msg. element l = Inl (Error (msg @ formatDescription l))"
    and "\<exists>msg. click g l = (Inl (Error (msg @ formatDescription l)), page_of l)"
    and "\<exists>msg. fill g setters l v = (Inl (Error (msg @ formatDescription l)), page_of l)"
    and "\<exists>msg. press g keys setters l k = (Inl (Error (msg @ formatDescription l)), page_of l)"
    and "\<exists>msg. blur g l = (Inl (Error (msg @ formatDescription l)), page_of l)"
proof -
  from assms(2) consider "length elems = 0" | "length elems > 1" by linarith
  then show "\<exists>msg. element l = Inl (Error (msg @ formatDescription l))"
    using assms(1) by cases (auto simp: element_def)
  from assms(2) consider "length elems = 0" | "length elems > 1" by linarith
  then show "\<exists>msg. click g l = (Inl (Error (msg @ formatDescription l)), page_of l)"
    using assms(1) by cases (auto simp: click_def)
  from assms(2) consider "length elems = 0" | "length elems > 1" by linarith
  then show "\<exists>msg. fill g setters l v = (Inl (Error (msg @ formatDescription l)), page_of l)"
    using assms(1) by cases (auto simp: fill_def)
  from assms(2) consider "length elems = 0" | "length elems > 1" by linarith
  then show "\<exists>msg. press g keys setters l k = (Inl (Error (msg @ formatDescription l)), page_of l)"
    using assms(1) by cases (auto simp: press_def)
  from assms(2) consider "length elems = 0" | "length elems > 1" by linarith
  then show "\<exists>msg. blur g l = (Inl (Error (msg @ formatDescription l)), page_of l)"
    using assms(1) by cases (auto simp: blur_def)
qed

lemma accessor_needs_one:
  assumes "fst (click g l) = Inr u \<or> fst (fill g setters l v) = Inr u \<or>
           fst (press g keys setters l k) = Inr u \<or> fst (blur g l) = Inr u \<or> element l = Inr x"
  shows "\<exists>y. allElements l = Inr [y]"
proof (cases "allElements l")
  case (Inl err)
  with assms show ?thesis
    by (simp add: click_def fill_def press_def blur_def element_def)
next
  case (Inr elems)
  show ?thesis
  proof (cases "length elems = 1")
    case True
    then obtain y where "elems = [y]" by (cases elems) auto
    with Inr show ?thesis by simp
  next
    case False
    from accessor_failures(1) [OF Inr False] accessor_failures(2) [OF Inr False, of g]
      accessor_failures(3) [OF Inr False, of g setters v] accessor_failures(4) [OF Inr False, of g keys setters k]
      accessor_failures(5) [OF Inr False, of g] assms
    show ?thesis by auto
  qed
qed

text \<open>
  C4. When the locator finds no element, \<open>element\<close>, \<open>click\<close>, \<open>fill\<close>, \<open>press\<close> and \<open>blur\<close>
  each fail with an error that begins \<open>no elements found\<close>; when it finds two or more, each
  fails with an error that begins \<open>multiple elements found\<close>. Either error ends with the
  formatted description of the locator, the two differ whatever the description is, and in
  either case nothing is dispatched and the tree is left as it is: no element is picked.
  When the locator finds exactly one element, \<open>element\<close> returns that element; and none
  of the five succeeds unless the locator finds exactly one element.
\<close>

theorem single_element_accessors:
  "(allElements l = Inr [] \<longrightarrow>
      element l = Inl (Error (''no elements found but expected one: '' @ formatDescription l)) \<and>
      click g l = (Inl (Error (''no elements found to click: '' @ formatDescription l)), page_of l) \<and>
      fill g setters l v = (Inl (Error (''no elements found to fill: '' @ formatDescription l)), page_of l) \<and>
      press g keys setters l k =
        (Inl (Error (''no elements found to press: '' @ formatDescription l)), page_of l) \<and>
      blur g l = (Inl (Error (''no elements found to fill: '' @ formatDescription l)), page_of l)) \<and>
   (allElements l = Inr (x # y # zs) \<longrightarrow>
      element l =
        Inl (Error (''multiple elements found but expected one: '' @ formatDescription l)) \<and>
      click g l =
        (Inl (Error (''multiple elements found to click: '' @ formatDescription l)), page_of l) \<and>
      fill g setters l v =
        (Inl (Error (''multiple elements found to fill: '' @ formatDescription l)), page_of l) \<and>
      press g keys setters l k =
        (Inl (Error (''multiple elements found to press: '' @ formatDescription l)), page_of l) \<and>
      blur g l =
        (Inl (Error (''multiple elements found to fill: '' @ formatDescription l)), page_of l)) \<and>
   (allElements l = Inr [x] \<longrightarrow> element l = Inr x) \<and>
   (fst (click g l) = Inr u \<or> fst (fill g setters l v) = Inr u \<or> fst (press g keys setters l k) = Inr u \<or>
    fst (blur g l) = Inr u \<or> element l = Inr x \<longrightarrow> (\<exists>z. allElements l = Inr [z])) \<and>
   ''no elements found but expected one: '' @ d \<noteq> ''multiple elements found but expected one: '' @ d' \<and>
   ''no elements found to click: '' @ d \<noteq> ''multiple elements found to click: '' @ d' \<and>
   ''no elements found to fill: '' @ d \<noteq> ''multiple elements found to fill: '' @ d' \<and>
   ''no elements found to press: '' @ d \<noteq> ''multiple elements found to press: '' @ d' \<and>
   page_of l = \<lparr>tree = root l, log = []\<rparr>"
proof (intro conjI impI)
  assume none: "allElements l = Inr []"
  then show "element l = Inl (Error (''no elements found but expected one: '' @ formatDescription l))"
    by (simp add: element_def)
  from none show "click g l
      = (Inl (Error (''no elements found to click: '' @ formatDescription l)), page_of l)"
    by (simp add: click_def)
  from none show "fill g setters l v
      = (Inl (Error (''no elements found to fill: '' @ formatDescription l)), page_of l)"
    by (simp add: fill_def)
  from none show "press g keys setters l k
      = (Inl (Error (''no elements found to press: '' @ formatDescription l)), page_of l)"
    by (simp add: press_def)
  from none show "blur g l
      = (Inl (Error (''no elements found to fill: '' @ formatDescription l)), page_of l)"
    by (simp add: blur_def)
next
  assume many: "allElements l = Inr (x # y # zs)"
  then show "element l
      = Inl (Error (''multiple elements found but expected one: '' @ formatDescription l))"
    by (simp add: element_def)
  from many show "click g l
      = (Inl (Error (''multiple elements found to click: '' @ formatDescription l)), page_of l)"
    by (simp add: click_def)
  from many show "fill g setters l v
      = (Inl (Error (''multiple elements found to fill: '' @ formatDescription l)), page_of l)"
    by (simp add: fill_def)
  from many show "press g keys setters l k
      = (Inl (Error (''multiple elements found to press: '' @ formatDescription l)), page_of l)"
    by (simp add: press_def)
  from many show "blur g l
      = (Inl (Error (''multiple elements found to fill: '' @ formatDescription l)), page_of l)"
    by (simp add: blur_def)
next
  assume "allElements l = Inr [x]"
  then show "element l = Inr x" by (simp add: element_def)
next
  assume "fst (click g l) = Inr u \<or> fst (fill g setters l v) = Inr u \<or> fst (press g keys setters l k) = Inr u \<or>
    fst (blur g l) = Inr u \<or> element l = Inr x"
  then show "\<exists>z. allElements l = Inr [z]" by (rule accessor_needs_one)
qed (simp_all add: page_of_def)

lemma none_found: "allElements (locate type_selectors screenLoc ''p'') = Inr []"
  by code_simp

lemma many_found:
  "allElements (locate type_selectors screenLoc ''div'') = Inr [div_a, div_ab, div_abc, div_abcd]"
  by code_simp

lemma one_found: "allElements (locateText screenLoc (IsString ''delta'')) = Inr [div_abcd]"
  by code_simp

text \<open>The theorem on the page of the test \<open>filterText\<close>: \<open>locate('p')\<close> finds nothing,
  \<open>locate('div')\<close> finds four elements, and \<open>locateText('delta')\<close> finds one.\<close>

theorem single_element_accessors_witness:
  "allElements (locate type_selectors screenLoc ''p'') = Inr [] \<and>
   element (locate type_selectors screenLoc ''p'')
     = Inl (Error ''no elements found but expected one: locate(p)'') \<and>
   fst (click None (locate type_selectors screenLoc ''p''))
     = Inl (Error ''no elements found to click: locate(p)'') \<and>
   allElements (locate type_selectors screenLoc ''div'') = Inr [div_a, div_ab, div_abc, div_abcd] \<and>
   element (locate type_selectors screenLoc ''div'')
     = Inl (Error ''multiple elements found but expected one: locate(div)'') \<and>
   press None two_keys text_inputs (locate type_selectors screenLoc ''div'') ''F''
     = (Inl (Error ''multiple elements found to press: locate(div)''),
        \<lparr>tree = filterText_screen, log = []\<rparr>) \<and>
   allElements (locateText screenLoc (IsString ''delta'')) = Inr [div_abcd] \<and>
   element (locateText screenLoc (IsString ''delta'')) = Inr div_abcd"
proof -
  have d0: "formatDescription (locate type_selectors screenLoc ''p'') = ''locate(p)''"
    by (simp add: formatDescription_def describe_def locate_def chainLocator_def screenLoc_def
        ScreenLocator_of_def)
  have d1: "formatDescription (locate type_selectors screenLoc ''div'') = ''locate(div)''"
    by (simp add: formatDescription_def describe_def locate_def chainLocator_def screenLoc_def
        ScreenLocator_of_def)
  have r: "root (locate type_selectors screenLoc ''div'') = filterText_screen"
    by (simp add: locate_def chainLocator_def screenLoc_def ScreenLocator_of_def)
  note t0 = single_element_accessors [where l = "locate type_selectors screenLoc ''p''"
      and g = None and keys = two_keys and setters = text_inputs and k = "''F''"]
  note t1 = single_element_accessors [where l = "locate type_selectors screenLoc ''div''"
      and g = None and keys = two_keys and setters = text_inputs and k = "''F''" and x = div_a and y = div_ab
      and zs = "[div_abc, div_abcd]"]
  note t2 = single_element_accessors [where l = "locateText screenLoc (IsString ''delta'')"
      and g = None and keys = two_keys and setters = text_inputs and k = "''F''" and x = div_abcd]
  from t0 none_found d0
  have a: "element (locate type_selectors screenLoc ''p'')
      = Inl (Error ''no elements found but expected one: locate(p)'')"
    and b: "fst (click None (locate type_selectors screenLoc ''p''))
      = Inl (Error ''no elements found to click: locate(p)'')"
    by simp_all
  from t1 many_found d1 r
  have c: "element (locate type_selectors screenLoc ''div'')
      = Inl (Error ''multiple elements found but expected one: locate(div)'')"
    and e: "press None two_keys text_inputs (locate type_selectors screenLoc ''div'') ''F''
      = (Inl (Error ''multiple elements found to press: locate(div)''),
         \<lparr>tree = filterText_screen, log = []\<rparr>)"
    by simp_all
  from t2 one_found
  have f: "element (locateText screenLoc (IsString ''delta'')) = Inr div_abcd" by simp
  from a b c e f none_found many_found one_found show ?thesis by blast
qed

text \<open>
  C7. \<open>verifyReceiver\<close> turns a \<open>DomScreen\<close> into its root locator (the zero-step locator on
  its container), an element into a zero-step locator rooted at that element, and a
  \<open>ScreenLocator\<close> into itself; for any other value it fails with the error
  \<open>Expected receiver to be a DomScreen or ScreenLocator\<close>. Every matcher normalizes its
  receiver before anything else: on a receiver of another kind each of the six matchers, and
  the wrapped URL-path matcher on its first evaluation, fails with that error whatever its
  other arguments are, and on a receiver that normalizes to a locator each matcher returns
  what it returns on that locator.
\<close>

theorem receiver_normalized_first:
  "verifyReceiver css (ADomScreen s) = Inr (loc s) \<and>
   verifyReceiver css (ADomScreen (new_DomScreen a c)) = Inr (ScreenLocator_of a c) \<and>
   verifyReceiver css (AnElement e) = Inr \<lparr>act = DomScreen_globalAct, root = e, matchers = []\<rparr> \<and>
   verifyReceiver css (AScreenLocator l) = Inr l \<and>
   verifyReceiver css (AnotherValue v)
     = Inl (Error (''Expected receiver to be a DomScreen or ScreenLocator, got '' @ v)) \<and>
   toMatchSelector host this (AnotherValue v) selector
     = Inl (Error (''Expected receiver to be a DomScreen or ScreenLocator, got '' @ v)) \<and>
   toHaveClass host this (AnotherValue v) selector
     = Inl (Error (''Expected receiver to be a DomScreen or ScreenLocator, got '' @ v)) \<and>
   toContainText host this (AnotherValue v) q
     = Inl (Error (''Expected receiver to be a DomScreen or ScreenLocator, got '' @ v)) \<and>
   toHaveURLPath host this (AnotherValue v) selector
     = Inl (Error (''Expected receiver to be a DomScreen or ScreenLocator, got '' @ v)) \<and>
   toHaveTitle host this (AnotherValue v) selector
     = Inl (Error (''Expected receiver to be a DomScreen or ScreenLocator, got '' @ v)) \<and>
   toBeInDocument host this (AnotherValue v)
     = Inl (Error (''Expected receiver to be a DomScreen or ScreenLocator, got '' @ v)) \<and>
   entry_toHaveURLPath (screenMatchers host (Some a) settle) this (AnotherValue v) selector
     = (Inl (Error (''Expected receiver to be a DomScreen or ScreenLocator, got '' @ v)),
        AnotherValue v, [Evaluated]) \<and>
   (verifyReceiver (engine host) r = Inr l \<longrightarrow>
      toMatchSelector host this r selector = toMatchSelector host this (AScreenLocator l) selector \<and>
      toHaveClass host this r selector = toHaveClass host this (AScreenLocator l) selector \<and>
      toContainText host this r q = toContainText host this (AScreenLocator l) q \<and>
      toHaveURLPath host this r selector = toHaveURLPath host this (AScreenLocator l) selector \<and>
      toHaveTitle host this r selector = toHaveTitle host this (AScreenLocator l) selector \<and>
      toBeInDocument host this r = toBeInDocument host this (AScreenLocator l))"
proof -
  have same: "verifyReceiver (engine host) (AScreenLocator l) = Inr l"
    by (simp add: verifyReceiver_def)
  have norm: "toMatchSelector host this r selector = toMatchSelector host this (AScreenLocator l) selector \<and>
      toHaveClass host this r selector = toHaveClass host this (AScreenLocator l) selector \<and>
      toContainText host this r q = toContainText host this (AScreenLocator l) q \<and>
      toHaveURLPath host this r selector = toHaveURLPath host this (AScreenLocator l) selector \<and>
      toHaveTitle host this r selector = toHaveTitle host this (AScreenLocator l) selector \<and>
      toBeInDocument host this r = toBeInDocument host this (AScreenLocator l)"
    if "verifyReceiver (engine host) r = Inr l"
    unfolding toMatchSelector_def toHaveClass_def toContainText_def toHaveURLPath_def
      toHaveTitle_def toBeInDocument_def same that by simp
  have other: "verifyReceiver css (AnotherValue v)
     = Inl (Error (''Expected receiver to be a DomScreen or ScreenLocator, got '' @ v))" for css
    by (simp add: verifyReceiver_def)
  have errs: "toMatchSelector host this (AnotherValue v) selector
       = Inl (Error (''Expected receiver to be a DomScreen or ScreenLocator, got '' @ v)) \<and>
     toHaveClass host this (AnotherValue v) selector
       = Inl (Error (''Expected receiver to be a DomScreen or ScreenLocator, got '' @ v)) \<and>
     toContainText host this (AnotherValue v) q
       = Inl (Error (''Expected receiver to be a DomScreen or ScreenLocator, got '' @ v)) \<and>
     toHaveURLPath host this (AnotherValue v) selector
       = Inl (Error (''Expected receiver to be a DomScreen or ScreenLocator, got '' @ v)) \<and>
     toHaveTitle host this (AnotherValue v) selector
       = Inl (Error (''Expected receiver to be a DomScreen or ScreenLocator, got '' @ v)) \<and>
     toBeInDocument host this (AnotherValue v)
       = Inl (Error (''Expected receiver to be a DomScreen or ScreenLocator, got '' @ v))"
    unfolding toMatchSelector_def toHaveClass_def toContainText_def toHaveURLPath_def
      toHaveTitle_def toBeInDocument_def other by (simp add: and_then_def)
  have wrapped: "entry_toHaveURLPath (screenMatchers host (Some a) settle) this (AnotherValue v) selector
     = (Inl (Error (''Expected receiver to be a DomScreen or ScreenLocator, got '' @ v)),
        AnotherValue v, [Evaluated])"
    using errs
    by (simp add: screenMatchers_def waitForSuccess_def call_act_def
        waitForSuccess_loop.simps [of _ _ _ _ 0])
  have good: "verifyReceiver css (ADomScreen s) = Inr (loc s) \<and>
   verifyReceiver css (ADomScreen (new_DomScreen a c)) = Inr (ScreenLocator_of a c) \<and>
   verifyReceiver css (AnElement e) = Inr \<lparr>act = DomScreen_globalAct, root = e, matchers = []\<rparr> \<and>
   verifyReceiver css (AScreenLocator l) = Inr l"
    by (simp add: verifyReceiver_def DomScreen_locate_def locate_def new_DomScreen_def
        ScreenLocator_of_def)
  from good other [of css] errs wrapped norm show ?thesis by blast
qed

text \<open>The theorem at an element as the receiver.\<close>

theorem receiver_normalized_first_witness:
  "verifyReceiver (engine plain_host) (AnElement div_abcd)
     = Inr (ScreenLocator_of DomScreen_globalAct div_abcd) \<and>
   toBeInDocument plain_host plain_context (AnElement div_abcd)
     = toBeInDocument plain_host plain_context
         (AScreenLocator (ScreenLocator_of DomScreen_globalAct div_abcd)) \<and>
   toContainText plain_host plain_context (AnElement div_abcd) (IsString ''delta'')
     = toContainText plain_host plain_context
         (AScreenLocator (ScreenLocator_of DomScreen_globalAct div_abcd)) (IsString ''delta'')"
proof -
  have v: "verifyReceiver (engine plain_host) (AnElement div_abcd)
     = Inr (ScreenLocator_of DomScreen_globalAct div_abcd)"
    by (simp add: verifyReceiver_def)
  from receiver_normalized_first [where host = plain_host and r = "AnElement div_abcd"
      and l = "ScreenLocator_of DomScreen_globalAct div_abcd" and this = plain_context
      and q = "IsString ''delta''" and css = type_selectors and v = "''''" and selector = "''''"
      and a = "Act 0" and settle = "\<lambda>ms r. r"] v
  show ?thesis by blast
qed

section \<open>The retry wrapper, in four steps\<close>

lemma failing_Inr: "failing fn this arg w \<Longrightarrow> \<exists>m. fn this w arg = Inr m \<and> pass m = isNot this"
  by (auto simp: failing_def split: sum.splits)

lemma loop_stop:
  "i < 4 \<Longrightarrow> \<not> failing fn this arg w \<Longrightarrow>
   waitForSuccess_loop settle fn this arg i s res (w, tr) = (fn this w arg, w, tr @ [Evaluated])"
  by (subst waitForSuccess_loop.simps) (auto simp: failing_def split: sum.splits)

lemma loop_retry:
  "i < 4 \<Longrightarrow> fn this w arg = Inr m \<Longrightarrow> pass m = isNot this \<Longrightarrow> j = i + 1 \<Longrightarrow> s' = s * 2 \<Longrightarrow>
   waitForSuccess_loop settle fn this arg i s res (w, tr) =
     waitForSuccess_loop settle fn this arg j s' (Some m)
       (settle s w, tr @ [Evaluated, Slept s])"
  by (subst waitForSuccess_loop.simps) simp

lemma loop_end:
  "waitForSuccess_loop settle fn this arg 4 s (Some m) (w, tr) = (Inr m, w, tr)"
  by (subst waitForSuccess_loop.simps) simp

lemma receiver_at_numerals:
  "receiver_at settle r 1 = settle 5 r"
  "receiver_at settle r 2 = settle 10 (settle 5 r)"
  "receiver_at settle r 3 = settle 20 (settle 10 (settle 5 r))"
  "receiver_at settle r 4 = settle 40 (settle 20 (settle 10 (settle 5 r)))"
  by (simp_all add: eval_nat_numeral)

lemma waitForSuccess_uninitialised:
  "waitForSuccess None settle fn this receiver arg =
     (Inl (Error (''DomScreen.initTest() not called before DomScreen.globalAct().'' @ initHintMsg)),
      receiver, [])"
  by (simp add: waitForSuccess_def call_act_def)

lemma waitForSuccess_cases:
  fixes fn :: "'arg SyncMatcher" and this :: MatcherContext and arg :: 'arg
    and settle :: "nat \<Rightarrow> receiver \<Rightarrow> receiver" and receiver :: receiver and a :: DomScreenAct
  defines "f \<equiv> \<lambda>i. failing fn this arg (receiver_at settle receiver i)"
  defines "out \<equiv> waitForSuccess (Some a) settle fn this receiver arg"
  shows "(\<not> f 0 \<and> out = (fn this (receiver_at settle receiver 0) arg,
                          receiver_at settle receiver 0, [Evaluated])) \<or>
         (f 0 \<and> \<not> f 1 \<and> out = (fn this (receiver_at settle receiver 1) arg,
                          receiver_at settle receiver 1, [Evaluated, Slept 5, Evaluated])) \<or>
         (f 0 \<and> f 1 \<and> \<not> f 2 \<and> out = (fn this (receiver_at settle receiver 2) arg,
                          receiver_at settle receiver 2,
                          [Evaluated, Slept 5, Evaluated, Slept 10, Evaluated])) \<or>
         (f 0 \<and> f 1 \<and> f 2 \<and> \<not> f 3 \<and> out = (fn this (receiver_at settle receiver 3) arg,
                          receiver_at settle receiver 3,
                          [Evaluated, Slept 5, Evaluated, Slept 10, Evaluated, Slept 20, Evaluated])) \<or>
         (f 0 \<and> f 1 \<and> f 2 \<and> f 3 \<and> out = (fn this (receiver_at settle receiver 3) arg,
                          receiver_at settle receiver 4,
                          [Evaluated, Slept 5, Evaluated, Slept 10, Evaluated, Slept 20, Evaluated,
                           Slept 40]))"
proof -
  let ?r0 = receiver and ?r1 = "settle 5 receiver" and ?r2 = "settle 10 (settle 5 receiver)"
  let ?r3 = "settle 20 (settle 10 (settle 5 receiver))"
  let ?L = "waitForSuccess_loop settle fn this arg"
  have out: "out = ?L 0 5 None (?r0, [])"
    by (simp add: out_def waitForSuccess_def call_act_def)
  show ?thesis
  proof (cases "f 0")
    case False
    then have "\<not> failing fn this arg ?r0" by (simp add: f_def)
    from loop_stop [where fn = fn and this = this and arg = arg and settle = settle and i = 0
            and s = 5 and res = None and tr = "[]", OF _ this] False show ?thesis
      by (simp add: out)
  next
    case f0: True
    then obtain m0 where m0: "fn this ?r0 arg = Inr m0" "pass m0 = isNot this"
      using failing_Inr [of fn this arg ?r0] by (auto simp: f_def)
    have s1: "out = ?L 1 10 (Some m0) (?r1, [Evaluated, Slept 5])"
      using loop_retry [where fn = fn and this = this and arg = arg and settle = settle and i = 0
            and s = 5 and j = 1 and s' = 10 and res = None and tr = "[]" and m = m0] m0 by (simp add: out)
    show ?thesis
    proof (cases "f 1")
      case False
      then have "\<not> failing fn this arg ?r1" by (simp add: f_def receiver_at_numerals)
      from loop_stop [where fn = fn and this = this and arg = arg and settle = settle and i = 1
            and s = 10 and res = "Some m0" and tr = "[Evaluated, Slept 5]", OF _ this] False f0
      show ?thesis by (simp add: s1 receiver_at_numerals)
    next
      case f1: True
      then obtain m1 where m1: "fn this ?r1 arg = Inr m1" "pass m1 = isNot this"
        using failing_Inr [of fn this arg ?r1] by (auto simp: f_def receiver_at_numerals)
      have s2: "out = ?L 2 20 (Some m1) (?r2, [Evaluated, Slept 5, Evaluated, Slept 10])"
        using loop_retry [where fn = fn and this = this and arg = arg and settle = settle and i = 1
            and s = 10 and j = 2 and s' = 20 and res = "Some m0" and tr = "[Evaluated, Slept 5]" and m = m1] m1
        by (simp add: s1)
      show ?thesis
      proof (cases "f 2")
        case False
        then have "\<not> failing fn this arg ?r2" by (simp add: f_def receiver_at_numerals)
        from loop_stop [where fn = fn and this = this and arg = arg and settle = settle and i = 2
            and s = 20 and res = "Some m1" and tr = "[Evaluated, Slept 5, Evaluated, Slept 10]", OF _ this] False f0 f1
        show ?thesis by (simp add: s2 receiver_at_numerals)
      next
        case f2: True
        then obtain m2 where m2: "fn this ?r2 arg = Inr m2" "pass m2 = isNot this"
          using failing_Inr [of fn this arg ?r2] by (auto simp: f_def receiver_at_numerals)
        have s3: "out = ?L 3 40 (Some m2)
            (?r3, [Evaluated, Slept 5, Evaluated, Slept 10, Evaluated, Slept 20])"
          using loop_retry [where fn = fn and this = this and arg = arg and settle = settle and i = 2
            and s = 20 and j = 3 and s' = 40 and res = "Some m1" and tr = "[Evaluated, Slept 5, Evaluated, Slept 10]" and m = m2] m2
          by (simp add: s2)
        show ?thesis
        proof (cases "f 3")
          case False
          then have "\<not> failing fn this arg ?r3" by (simp add: f_def receiver_at_numerals)
          from loop_stop [where fn = fn and this = this and arg = arg and settle = settle and i = 3
            and s = 40 and res = "Some m2" and tr = "[Evaluated, Slept 5, Evaluated, Slept 10, Evaluated, Slept 20]", OF _ this] False f0 f1 f2
          show ?thesis by (simp add: s3 receiver_at_numerals)
        next
          case f3: True
          then obtain m3 where m3: "fn this ?r3 arg = Inr m3" "pass m3 = isNot this"
            using failing_Inr [of fn this arg ?r3] by (auto simp: f_def receiver_at_numerals)
          have "?L 3 40 (Some m2)
              (?r3, [Evaluated, Slept 5, Evaluated, Slept 10, Evaluated, Slept 20])
            = ?L 4 80 (Some m3)
              (settle 40 ?r3,
               [Evaluated, Slept 5, Evaluated, Slept 10, Evaluated, Slept 20] @ [Evaluated, Slept 40])"
            by (rule loop_retry [where fn = fn and this = this and m = m3]) (simp_all add: m3)
          then have "out = ?L 4 80 (Some m3)
              (settle 40 ?r3,
               [Evaluated, Slept 5, Evaluated, Slept 10, Evaluated, Slept 20, Evaluated, Slept 40])"
            unfolding s3 by simp
          then have "out = (Inr m3, settle 40 ?r3,
               [Evaluated, Slept 5, Evaluated, Slept 10, Evaluated, Slept 20, Evaluated, Slept 40])"
            by (simp add: loop_end)
          with f0 f1 f2 f3 m3 show ?thesis by (simp add: receiver_at_numerals)
        qed
      qed
    qed
  qed
qed

lemma evaluations_simps [simp]:
  "evaluations [] = 0"
  "evaluations (Evaluated # tr) = Suc (evaluations tr)"
  "evaluations (Slept n # tr) = evaluations tr"
  by (simp_all add: evaluations_def)

lemma delays_simps [simp]:
  "delays [] = []"
  "delays (Evaluated # tr) = delays tr"
  "delays (Slept n # tr) = n # delays tr"
  by (simp_all add: delays_def)

lemma all_less_numerals:
  "(\<forall>j<(1::nat). P j) = P 0"
  "(\<forall>j<(2::nat). P j) = (P 0 \<and> P 1)"
  "(\<forall>j<(3::nat). P j) = (P 0 \<and> P 1 \<and> P 2)"
  "(\<forall>j<(4::nat). P j) = (P 0 \<and> P 1 \<and> P 2 \<and> P 3)"
  by (auto simp: less_Suc_eq numeral_2_eq_2 numeral_3_eq_3 eval_nat_numeral)

lemma upt_numerals:
  "[0..<Suc 0] = [0]" "[0..<2] = [0, 1]" "[0..<3] = [0, 1, 2]" "[0..<4] = [0, 1, 2, 3]"
  by (simp_all add: upt_rec)

text \<open>
  C2. With the runner initialised, the retry wrapper returns the outcome of one of at most
  four evaluations of the wrapped matcher: it evaluates the matcher on the receiver as the
  timeouts before have left it, waits 5, 10, 20, ... milliseconds after each evaluation
  that returned a failing result (one where \<open>isNot\<close> equals \<open>pass\<close>), and stops at the first
  evaluation that does not fail. When all four evaluations fail, it has evaluated the
  matcher exactly four times, has waited 5, 10, 20 and 40 milliseconds, and returns the
  result of the fourth evaluation, which is a failing result of the matcher and no error of
  the wrapper's own. Whatever the runner, the matcher is evaluated at most four times. Of
  the registered matchers only the URL-path matcher is wrapped.
\<close>

theorem retry_wrapper_bounded:
  fixes fn :: "'arg SyncMatcher" and this :: MatcherContext and arg :: 'arg
    and settle :: "nat \<Rightarrow> receiver \<Rightarrow> receiver" and receiver :: receiver and a :: DomScreenAct
  defines "f \<equiv> \<lambda>i. failing fn this arg (receiver_at settle receiver i)"
  defines "out \<equiv> waitForSuccess (Some a) settle fn this receiver arg"
  shows "(\<exists>i<4. fst out = fn this (receiver_at settle receiver i) arg \<and>
            evaluations (snd (snd out)) = Suc i \<and>
            (\<forall>j<i. f j) \<and> (i < 3 \<longrightarrow> \<not> f i) \<and>
            delays (snd (snd out)) = map (\<lambda>j. 5 * 2 ^ j) [0..<(if f i then Suc i else i)]) \<and>
         ((\<forall>i<4. f i) \<longrightarrow>
            evaluations (snd (snd out)) = 4 \<and> delays (snd (snd out)) = [5, 10, 20, 40] \<and>
            fst out = fn this (receiver_at settle receiver 3) arg \<and>
            (\<exists>m. fst out = Inr m \<and> pass m = isNot this)) \<and>
         evaluations (snd (snd (waitForSuccess g settle fn this receiver arg))) \<le> 4 \<and>
         entry_toHaveURLPath (screenMatchers host g settle)
           = waitForSuccess g settle (toHaveURLPath host) \<and>
         entry_toMatchSelector (screenMatchers host g settle) = toMatchSelector host \<and>
         entry_toHaveClass (screenMatchers host g settle) = toHaveClass host \<and>
         entry_toContainText (screenMatchers host g settle) = toContainText host \<and>
         entry_toHaveTitle (screenMatchers host g settle) = toHaveTitle host \<and>
         entry_toBeInDocument (screenMatchers host g settle) = toBeInDocument host"
proof -
  have c:
    "(\<not> f 0 \<and> out = (fn this (receiver_at settle receiver 0) arg,
                          receiver_at settle receiver 0, [Evaluated])) \<or>
     (f 0 \<and> \<not> f 1 \<and> out = (fn this (receiver_at settle receiver 1) arg,
                          receiver_at settle receiver 1, [Evaluated, Slept 5, Evaluated])) \<or>
     (f 0 \<and> f 1 \<and> \<not> f 2 \<and> out = (fn this (receiver_at settle receiver 2) arg,
                          receiver_at settle receiver 2,
                          [Evaluated, Slept 5, Evaluated, Slept 10, Evaluated])) \<or>
     (f 0 \<and> f 1 \<and> f 2 \<and> \<not> f 3 \<and> out = (fn this (receiver_at settle receiver 3) arg,
                          receiver_at settle receiver 3,
                          [Evaluated, Slept 5, Evaluated, Slept 10, Evaluated, Slept 20, Evaluated])) \<or>
     (f 0 \<and> f 1 \<and> f 2 \<and> f 3 \<and> out = (fn this (receiver_at settle receiver 3) arg,
                          receiver_at settle receiver 4,
                          [Evaluated, Slept 5, Evaluated, Slept 10, Evaluated, Slept 20, Evaluated,
                           Slept 40]))"
    unfolding f_def out_def by (rule waitForSuccess_cases)
  have A: "\<exists>i<4. fst out = fn this (receiver_at settle receiver i) arg \<and>
            evaluations (snd (snd out)) = Suc i \<and>
            (\<forall>j<i. f j) \<and> (i < 3 \<longrightarrow> \<not> f i) \<and>
            delays (snd (snd out)) = map (\<lambda>j. 5 * 2 ^ j) [0..<(if f i then Suc i else i)]"
    using c
  proof (elim disjE conjE)
    assume "\<not> f 0" "out = (fn this (receiver_at settle receiver 0) arg,
                          receiver_at settle receiver 0, [Evaluated])"
    then show ?thesis by (intro exI [of _ 0]) simp
  next
    assume "f 0" "\<not> f 1" "out = (fn this (receiver_at settle receiver 1) arg,
                          receiver_at settle receiver 1, [Evaluated, Slept 5, Evaluated])"
    then show ?thesis by (intro exI [of _ 1]) (simp add: upt_numerals all_less_numerals)
  next
    assume "f 0" "f 1" "\<not> f 2" "out = (fn this (receiver_at settle receiver 2) arg,
                          receiver_at settle receiver 2,
                          [Evaluated, Slept 5, Evaluated, Slept 10, Evaluated])"
    then show ?thesis by (intro exI [of _ 2]) (simp add: upt_numerals all_less_numerals)
  next
    assume "f 0" "f 1" "f 2" "\<not> f 3" "out = (fn this (receiver_at settle receiver 3) arg,
                          receiver_at settle receiver 3,
                          [Evaluated, Slept 5, Evaluated, Slept 10, Evaluated, Slept 20, Evaluated])"
    then show ?thesis
      by (intro exI [of _ 3]) (simp add: upt_numerals all_less_numerals)
  next
    assume "f 0" "f 1" "f 2" "f 3" "out = (fn this (receiver_at settle receiver 3) arg,
                          receiver_at settle receiver 4,
                          [Evaluated, Slept 5, Evaluated, Slept 10, Evaluated, Slept 20, Evaluated,
                           Slept 40])"
    then show ?thesis
      by (intro exI [of _ 3]) (simp add: upt_numerals all_less_numerals)
  qed
  have B: "evaluations (snd (snd out)) = 4 \<and> delays (snd (snd out)) = [5, 10, 20, 40] \<and>
            fst out = fn this (receiver_at settle receiver 3) arg \<and>
            (\<exists>m. fst out = Inr m \<and> pass m = isNot this)" if all: "\<forall>i<4. f i"
  proof -
    from all have "f 0" "f 1" "f 2" "f 3" by (simp_all add: all_less_numerals)
    with c have o: "out = (fn this (receiver_at settle receiver 3) arg,
                          receiver_at settle receiver 4,
                          [Evaluated, Slept 5, Evaluated, Slept 10, Evaluated, Slept 20, Evaluated,
                           Slept 40])" by blast
    from \<open>f 3\<close> obtain m where "fn this (receiver_at settle receiver 3) arg = Inr m" "pass m = isNot this"
      using failing_Inr [of fn this arg "receiver_at settle receiver 3"] by (auto simp: f_def)
    with o show ?thesis by simp
  qed
  have C: "evaluations (snd (snd (waitForSuccess g settle fn this receiver arg))) \<le> 4"
  proof (cases g)
    case None
    then show ?thesis by (simp add: waitForSuccess_uninitialised)
  next
    case (Some b)
    have "waitForSuccess (Some b) settle fn this receiver arg = out"
      by (simp add: out_def waitForSuccess_def call_act_def)
    with A Some show ?thesis by auto
  qed
  have D: "entry_toHaveURLPath (screenMatchers host g settle)
           = waitForSuccess g settle (toHaveURLPath host) \<and>
         entry_toMatchSelector (screenMatchers host g settle) = toMatchSelector host \<and>
         entry_toHaveClass (screenMatchers host g settle) = toHaveClass host \<and>
         entry_toContainText (screenMatchers host g settle) = toContainText host \<and>
         entry_toHaveTitle (screenMatchers host g settle) = toHaveTitle host \<and>
         entry_toBeInDocument (screenMatchers host g settle) = toBeInDocument host"
    by (simp add: screenMatchers_def)
  from B have B': "(\<forall>i<4. f i) \<longrightarrow>
            evaluations (snd (snd out)) = 4 \<and> delays (snd (snd out)) = [5, 10, 20, 40] \<and>
            fst out = fn this (receiver_at settle receiver 3) arg \<and>
            (\<exists>m. fst out = Inr m \<and> pass m = isNot this)" by blast
  show ?thesis by (intro conjI A B' C D [THEN conjunct1] D [THEN conjunct2, THEN conjunct1]
      D [THEN conjunct2, THEN conjunct2, THEN conjunct1]
      D [THEN conjunct2, THEN conjunct2, THEN conjunct2, THEN conjunct1]
      D [THEN conjunct2, THEN conjunct2, THEN conjunct2, THEN conjunct2, THEN conjunct1]
      D [THEN conjunct2, THEN conjunct2, THEN conjunct2, THEN conjunct2, THEN conjunct2])
qed

lemma receiver_at_unchanged: "receiver_at (\<lambda>ms r. r) r i = r"
  by (induction i) simp_all

text \<open>The theorem at the URL-path matcher on a page whose path stays \<open>/\<close> while \<open>/next\<close> is
  expected.\<close>

theorem retry_wrapper_bounded_witness:
  "evaluations (snd (snd (waitForSuccess (Some (Act 0)) (\<lambda>ms r. r) (toHaveURLPath plain_host)
       plain_context (AnElement no_role) ''/next''))) = 4 \<and>
   delays (snd (snd (waitForSuccess (Some (Act 0)) (\<lambda>ms r. r) (toHaveURLPath plain_host)
       plain_context (AnElement no_role) ''/next''))) = [5, 10, 20, 40] \<and>
   fst (waitForSuccess (Some (Act 0)) (\<lambda>ms r. r) (toHaveURLPath plain_host)
       plain_context (AnElement no_role) ''/next'')
     = toHaveURLPath plain_host plain_context (AnElement no_role) ''/next''"
proof -
  have fail: "failing (toHaveURLPath plain_host) plain_context ''/next'' (AnElement no_role)"
    by (simp add: failing_def toHaveURLPath_def verifyReceiver_def and_then_def
        ScreenLocator_of_def no_role_def html_element_def localhost_def plain_host_def
        plain_context_def Let_def)
  then have all: "\<forall>i<4. failing (toHaveURLPath plain_host) plain_context ''/next''
      (receiver_at (\<lambda>ms r. r) (AnElement no_role) i)"
    by (simp add: receiver_at_unchanged)
  from retry_wrapper_bounded [where fn = "toHaveURLPath plain_host" and this = plain_context
      and arg = "''/next''" and settle = "\<lambda>ms r. r" and receiver = "AnElement no_role"
      and a = "Act 0" and g = None and host = plain_host] all
  show ?thesis by (simp add: receiver_at_unchanged)
qed

section \<open>Key presses and teardown\<close>











lemma run_in_order_Nil [simp]: "run_in_order [] w = w"
  by (simp add: run_in_order_def)

lemma run_in_order_Cons [simp]: "run_in_order (t # ts) w = run_in_order ts (snd (t w))"
  by (simp add: run_in_order_def)

lemma all_return_Nil [simp]: "all_return [] w"
  by (simp add: all_return_def)

lemma all_return_Cons:
  "all_return (t # ts) w \<longleftrightarrow> fst (t w) = Inr () \<and> all_return ts (snd (t w))"
  by (simp add: all_return_def All_less_Suc2)

text \<open>The loop against the thunks taken one by one: what it has called is a front part of
  the list, the host is as those calls leave it in that order, and every call but the last
  has returned; the loop returns when the last call has returned too, and throws what the
  last call has thrown.\<close>

lemma run_cleanups_in_order:
  "run_cleanups ts w = (res, w', called) \<Longrightarrow>
     (\<exists>rest. ts = called @ rest) \<and> w' = run_in_order called w \<and>
     all_return (butlast called) w \<and>
     (res = Inr () \<longrightarrow> called = ts \<and> all_return ts w) \<and>
     (\<forall>err. res = Inl err \<longrightarrow>
        called \<noteq> [] \<and> fst (last called (run_in_order (butlast called) w)) = Inl err)"
proof (induction ts arbitrary: w res w' called)
  case Nil
  then show ?case by auto
next
  case (Cons t ts)
  obtain r1 w1 where t: "t w = (r1, w1)" by (cases "t w")
  show ?case
  proof (cases r1)
    case (Inl err)
    with Cons.prems t have "res = Inl err" "w' = w1" "called = [t]" by auto
    with t Inl show ?thesis by simp
  next
    case (Inr u)
    obtain r2 w2 c2 where rest: "run_cleanups ts w1 = (r2, w2, c2)"
      by (cases "run_cleanups ts w1") auto
    from Cons.prems t Inr rest have eq: "res = r2" "w' = w2" "called = t # c2" by auto
    note ih = Cons.IH [OF rest]
    have ret: "fst (t w) = Inr ()" using t Inr by simp
    have w1: "snd (t w) = w1" using t by simp
    have a: "\<exists>rest. t # ts = called @ rest" using ih eq by auto
    have b: "w' = run_in_order called w" using ih eq w1 by simp
    have c: "all_return (butlast called) w"
    proof (cases c2)
      case Nil
      with eq show ?thesis by simp
    next
      case (Cons x xs)
      with eq have "butlast called = t # butlast c2" by simp
      with ih ret w1 show ?thesis by (simp add: all_return_Cons)
    qed
    have d: "called = t # ts \<and> all_return (t # ts) w" if "res = Inr ()"
      using that ih eq ret w1 by (simp add: all_return_Cons)
    have e: "called \<noteq> [] \<and> fst (last called (run_in_order (butlast called) w)) = Inl err"
      if "res = Inl err" for err
    proof -
      from that ih eq have c2: "c2 \<noteq> []"
        and l: "fst (last c2 (run_in_order (butlast c2) w1)) = Inl err" by auto
      from c2 eq have "last called = last c2" "butlast called = t # butlast c2" by simp_all
      with l w1 eq show ?thesis by simp
    qed
    from a b c d e show ?thesis by blast
  qed
qed

lemma run_cleanups_all_return: "all_return ts w \<Longrightarrow> fst (run_cleanups ts w) = Inr ()"
proof (induction ts arbitrary: w)
  case Nil
  then show ?case by simp
next
  case (Cons t ts)
  then have ret: "fst (t w) = Inr ()" and rest: "all_return ts (snd (t w))"
    by (simp_all add: all_return_Cons)
  obtain w1 where t: "t w = (Inr (), w1)" using ret by (cases "t w") auto
  with rest Cons.IH [of w1] show ?case by (auto split: prod.splits)
qed

text \<open>
  C9, as the code has it. \<open>cleanup\<close> calls the thunks of \<open>cleanups\<close> from the first on, each
  once and each on the host as the thunk before it left it, and \<open>render\<close> appends its
  teardown thunk at the end of the list, so the order of the calls is the order of
  registration. \<open>cleanup\<close> returns exactly when every thunk returns in its turn; it has then
  called every thunk of the list, the host is as these calls leave it in that order, the
  list is empty, and a second \<open>cleanup\<close> returns at once: it throws nothing, calls no thunk
  and leaves the screen and the host as they are. When a thunk throws, \<open>cleanup\<close> ends with
  that error at that thunk, and the list is as it was. The same holds for the \<open>cleanup\<close>
  that clears the global flag first.
\<close>

theorem cleanup_in_order_then_clear:
  assumes "cleanup this w = (res, this', w', called)"
  shows "(\<exists>rest. cleanups this = called @ rest) \<and>
         w' = run_in_order called w \<and>
         all_return (butlast called) w \<and>
         (res = Inr () \<longleftrightarrow> all_return (cleanups this) w) \<and>
         (res = Inr () \<longrightarrow>
            called = cleanups this \<and> cleanups this' = [] \<and>
            cleanup this' w' = (Inr (), this', w', [])) \<and>
         (\<forall>err. res = Inl err \<longrightarrow>
            this' = this \<and> called \<noteq> [] \<and>
            fst (last called (run_in_order (butlast called) w)) = Inl err) \<and>
         (\<forall>l this0 w0 n. render g this0 n w0 = (Inr l, this, w) \<longrightarrow>
            (\<exists>r c. cleanups this = cleanups this0 @ [teardown g (lifecycle this0) r c])) \<and>
         (\<forall>res2 ts' w2 called2.
            cleanup_react ts w = (res2, ts', w2, called2) \<longrightarrow>
              (\<exists>rest. ts = called2 @ rest) \<and>
              w2 = run_in_order called2 (w\<lparr>IS_REACT_ACT_ENVIRONMENT := False\<rparr>) \<and>
              (res2 = Inr () \<longrightarrow>
                 called2 = ts \<and> ts' = [] \<and>
                 cleanup_react ts' w2
                   = (Inr (), [], w2\<lparr>IS_REACT_ACT_ENVIRONMENT := False\<rparr>, [])))"
proof -
  have e: "(\<exists>rest. ts = called2 @ rest) \<and>
              w2 = run_in_order called2 (w\<lparr>IS_REACT_ACT_ENVIRONMENT := False\<rparr>) \<and>
              (res2 = Inr () \<longrightarrow>
                 called2 = ts \<and> ts' = [] \<and>
                 cleanup_react ts' w2
                   = (Inr (), [], w2\<lparr>IS_REACT_ACT_ENVIRONMENT := False\<rparr>, []))"
    if h: "cleanup_react ts w = (res2, ts', w2, called2)" for res2 ts' w2 called2
  proof -
    obtain r1 w1 c1 where
      run: "run_cleanups ts (w\<lparr>IS_REACT_ACT_ENVIRONMENT := False\<rparr>) = (r1, w1, c1)"
      by (cases "run_cleanups ts (w\<lparr>IS_REACT_ACT_ENVIRONMENT := False\<rparr>)") auto
    from h run have eq: "w2 = w1" "called2 = c1" "res2 = r1"
      by (auto simp: cleanup_react_def split: sum.splits)
    note io = run_cleanups_in_order [OF run]
    from io eq have p: "\<exists>rest. ts = called2 @ rest" by simp
    from io eq have q: "w2 = run_in_order called2 (w\<lparr>IS_REACT_ACT_ENVIRONMENT := False\<rparr>)"
      by simp
    have "called2 = ts \<and> ts' = [] \<and>
          cleanup_react ts' w2 = (Inr (), [], w2\<lparr>IS_REACT_ACT_ENVIRONMENT := False\<rparr>, [])"
      if "res2 = Inr ()"
    proof -
      from that eq io have "c1 = ts" by simp
      moreover from that h run have "ts' = []"
        by (auto simp: cleanup_react_def split: sum.splits)
      ultimately show ?thesis using eq by (simp add: cleanup_react_def)
    qed
    with p q show ?thesis by blast
  qed
  obtain r1 w1 c1 where run: "run_cleanups (cleanups this) w = (r1, w1, c1)"
    by (cases "run_cleanups (cleanups this) w") auto
  have eq: "w' = w1" "called = c1" "res = r1"
    using assms run by (auto simp: cleanup_def split: sum.splits)
  note io = run_cleanups_in_order [OF run]
  have a: "\<exists>rest. cleanups this = called @ rest"
    using io eq by simp
  have a1: "w' = run_in_order called w"
    using io eq by simp
  have a2: "all_return (butlast called) w"
    using io eq by simp
  have a3: "res = Inr () \<longleftrightarrow> all_return (cleanups this) w"
  proof
    assume "res = Inr ()"
    with io eq show "all_return (cleanups this) w" by simp
  next
    assume "all_return (cleanups this) w"
    from run_cleanups_all_return [OF this] run eq show "res = Inr ()" by simp
  qed
  have b: "called = cleanups this \<and> cleanups this' = [] \<and>
            cleanup this' w' = (Inr (), this', w', [])" if "res = Inr ()"
  proof -
    from that assms run have r1: "r1 = Inr ()" and t: "this' = this\<lparr>cleanups := []\<rparr>"
      by (auto simp: cleanup_def split: sum.splits)
    from io r1 have "c1 = cleanups this" by simp
    with eq t show ?thesis by (simp add: cleanup_def)
  qed
  have c: "this' = this \<and> called \<noteq> [] \<and>
           fst (last called (run_in_order (butlast called) w)) = Inl err"
    if "res = Inl err" for err
  proof -
    from that assms run have "r1 = Inl err" "this' = this"
      by (auto simp: cleanup_def split: sum.splits)
    with io eq show ?thesis by simp
  qed
  have d: "\<exists>r c. cleanups this = cleanups this0 @ [teardown g (lifecycle this0) r c]"
    if "render g this0 n w0 = (Inr l, this, w)" for l this0 w0 n
    using that
    by (auto simp: render_def Let_def split: if_splits prod.splits sum.splits) blast
  from a a1 a2 a3 b c d e show ?thesis by blast
qed

lemma uppercase_dom_screen: "ascii_uppercase ''dom-screen'' = ''DOM-SCREEN''"
  by code_simp

lemma rendered_once_value:
  "rendered_once =
     (Inr (ScreenLocator_of (Act 0) (html_element 0 ''DOM-SCREEN'' [] [])),
      \<lparr>lifecycle = idle_lifecycle, cleanups = [teardown None idle_lifecycle 0 0]\<rparr>,
      empty_world\<lparr>body := [html_element 0 ''DOM-SCREEN'' [] []], next_ident := 1\<rparr>)"
  by (simp add: rendered_once_def render_def fresh_screen_def empty_world_def idle_lifecycle_def
      createElement_def call_act_def container_now_def html_element_def uppercase_dom_screen
      Let_def)

lemma rendered_twice_value:
  "rendered_twice =
     (Inr (ScreenLocator_of (Act 0) (html_element 1 ''DOM-SCREEN'' [] [])),
      \<lparr>lifecycle = oldest_first_lifecycle,
       cleanups = [teardown None oldest_first_lifecycle 0 0,
                   teardown None oldest_first_lifecycle 1 1]\<rparr>,
      empty_world\<lparr>body := [html_element 0 ''DOM-SCREEN'' [] [],
                            html_element 1 ''DOM-SCREEN'' [] []],
                  next_ident := 2\<rparr>)"
  by (simp add: rendered_twice_def render_def empty_world_def oldest_first_lifecycle_def
      createElement_def call_act_def container_now_def html_element_def uppercase_dom_screen
      Let_def)

text \<open>The theorem after two calls of \<open>render\<close> with a lifecycle whose roots have to be
  destroyed oldest first: \<open>cleanup\<close> returns and leaves the body empty, which the thunks in
  any other order do not (the second thunk throws when it is called first), and a second
  \<open>cleanup\<close> does nothing.\<close>

theorem cleanup_in_order_then_clear_witness:
  "length (cleanups (fst (snd rendered_twice))) = 2 \<and>
   map ident_of (body (snd (snd rendered_twice))) = [0, 1] \<and>
   fst (cleanup (fst (snd rendered_twice)) (snd (snd rendered_twice))) = Inr () \<and>
   all_return (cleanups (fst (snd rendered_twice))) (snd (snd rendered_twice)) \<and>
   snd (snd (snd (cleanup (fst (snd rendered_twice)) (snd (snd rendered_twice)))))
     = cleanups (fst (snd rendered_twice)) \<and>
   fst (snd (snd (cleanup (fst (snd rendered_twice)) (snd (snd rendered_twice)))))
     = run_in_order (cleanups (fst (snd rendered_twice))) (snd (snd rendered_twice)) \<and>
   body (fst (snd (snd (cleanup (fst (snd rendered_twice)) (snd (snd rendered_twice)))))) = [] \<and>
   cleanups (fst (snd (cleanup (fst (snd rendered_twice)) (snd (snd rendered_twice))))) = [] \<and>
   fst ((cleanups (fst (snd rendered_twice)) ! 1) (snd (snd rendered_twice)))
     = Inl (Error ''root destroyed out of order'') \<and>
   cleanup (fst (snd (cleanup (fst (snd rendered_twice)) (snd (snd rendered_twice)))))
           (fst (snd (snd (cleanup (fst (snd rendered_twice)) (snd (snd rendered_twice))))))
     = (Inr (),
        fst (snd (cleanup (fst (snd rendered_twice)) (snd (snd rendered_twice)))),
        fst (snd (snd (cleanup (fst (snd rendered_twice)) (snd (snd rendered_twice))))),
        [])"
proof -
  let ?s = "fst (snd rendered_twice)" and ?w = "snd (snd rendered_twice)"
  let ?c = "cleanup ?s ?w"
  have run: "?c = (fst ?c, fst (snd ?c), fst (snd (snd ?c)), snd (snd (snd ?c)))" by simp
  have ok: "fst ?c = Inr ()"
    by (simp add: rendered_twice_value cleanup_def teardown_def call_act_def
        oldest_first_lifecycle_def empty_world_def html_element_def)
  have b: "body (fst (snd (snd ?c))) = []"
    by (simp add: rendered_twice_value cleanup_def teardown_def call_act_def
        oldest_first_lifecycle_def empty_world_def html_element_def)
  have two: "length (cleanups ?s) = 2" by (simp add: rendered_twice_value)
  have ids: "map ident_of (body ?w) = [0, 1]"
    by (simp add: rendered_twice_value empty_world_def html_element_def)
  have wrong: "fst ((cleanups ?s ! 1) ?w) = Inl (Error ''root destroyed out of order'')"
    by (simp add: rendered_twice_value teardown_def call_act_def oldest_first_lifecycle_def
        empty_world_def html_element_def)
  note t = cleanup_in_order_then_clear [OF run, of None "[]"]
  from t ok have r: "all_return (cleanups ?s) ?w" by blast
  from t ok have c: "snd (snd (snd ?c)) = cleanups ?s" by blast
  from t have "fst (snd (snd ?c)) = run_in_order (snd (snd (snd ?c))) ?w" by blast
  with c have h: "fst (snd (snd ?c)) = run_in_order (cleanups ?s) ?w" by simp
  from t ok have e: "cleanups (fst (snd ?c)) = []" by blast
  from t ok have n: "cleanup (fst (snd ?c)) (fst (snd (snd ?c)))
      = (Inr (), fst (snd ?c), fst (snd (snd ?c)), [])" by blast
  from two ids ok r c h b e wrong n show ?thesis by blast
qed

text \<open>
  After one \<open>render\<close>, with the container taken out of the body before the first \<open>cleanup\<close>:
  the teardown thunk throws, the first \<open>cleanup\<close> ends with its error and the list still
  holds the thunk, and the second \<open>cleanup\<close> is no no-op: it calls the same thunk again and
  throws the same error.
\<close>

theorem cleanup_after_throw_runs_again:
  "length (cleanups (fst (snd rendered_once))) = 1 \<and>
   fst (cleanup (fst (snd rendered_once)) container_detached)
     = Inl (Error ''container parentNode is null during cleanup.'') \<and>
   length (cleanups (fst (snd (cleanup (fst (snd rendered_once)) container_detached)))) = 1 \<and>
   fst (cleanup (fst (snd (cleanup (fst (snd rendered_once)) container_detached)))
          (fst (snd (snd (cleanup (fst (snd rendered_once)) container_detached)))))
     = Inl (Error ''container parentNode is null during cleanup.'') \<and>
   length (snd (snd (snd
     (cleanup (fst (snd (cleanup (fst (snd rendered_once)) container_detached)))
        (fst (snd (snd (cleanup (fst (snd rendered_once)) container_detached)))))))) = 1"
  by (simp add: rendered_once_value container_detached_def cleanup_def teardown_def call_act_def
      idle_lifecycle_def empty_world_def html_element_def)

end
